theory Spec2Isabelle
  imports Complex_Main
begin

section \<open>JavaScript numbers\<close>

text \<open>
  The calculator computes with JavaScript numbers. A number is modelled by its value:
  a finite real, one of the two infinities, or NaN. Every arithmetic operation of the
  language computes the exact result and then rounds it to a value of the binary64
  format, so each operation below takes the rounding as its first argument. Two
  roundings are used: \<open>binary64\<close>, which is what the program runs with, and
  \<open>exact\<close>, which rounds nothing (it is \<open>Num\<close> itself) and gives the arithmetic of
  the reals, for the properties that are stated in exact arithmetic. Zero carries no
  sign: the program never divides by a zero whose sign could be negative (its divisors
  are 100, the periods per year and \<open>pow - 1\<close>), and no comparison tells the two zeros
  apart.
\<close>

datatype jsnum = Num real | PInf | NInf | NaN

type_synonym rounding = "real \<Rightarrow> jsnum"

abbreviation exact :: rounding where
  "exact \<equiv> Num"

fun js_neg :: "jsnum \<Rightarrow> jsnum" where
  "js_neg NaN = NaN"
| "js_neg PInf = NInf"
| "js_neg NInf = PInf"
| "js_neg (Num a) = Num (- a)"

text \<open>
  Rounding to the nearest binary64 value, ties to the even significand. For a positive
  \<open>x\<close> with \<open>2^e <= x < 2^(e+1)\<close> the values of the format are the multiples of
  \<open>2^(e-52)\<close>; below \<open>2^(-1022)\<close> they are the multiples of \<open>2^(-1074)\<close>, so that a
  value under half of that rounds to zero; and a result of \<open>2^1024\<close> or more is
  infinite. Negative values round as their mirror images.
\<close>

definition round_half_even :: "real \<Rightarrow> int" where
  "round_half_even y =
     (let f = \<lfloor>y\<rfloor>; d = y - of_int f
      in if d < 1 / 2 then f else if 1 / 2 < d then f + 1 else if even f then f else f + 1)"

definition binary64_pos :: "real \<Rightarrow> jsnum" where
  "binary64_pos x =
     (let e = max \<lfloor>log 2 x\<rfloor> (- 1022);
          q = 2 powr of_int (e - 52);
          r = of_int (round_half_even (x / q)) * q
      in if 2 ^ 1024 \<le> r then PInf else Num r)"

definition binary64 :: rounding where
  "binary64 x =
     (if x = 0 then Num 0
      else if 0 < x then binary64_pos x
      else js_neg (binary64_pos (- x)))"

fun js_add :: "rounding \<Rightarrow> jsnum \<Rightarrow> jsnum \<Rightarrow> jsnum" where
  "js_add rnd NaN _ = NaN"
| "js_add rnd _ NaN = NaN"
| "js_add rnd PInf NInf = NaN"
| "js_add rnd NInf PInf = NaN"
| "js_add rnd PInf _ = PInf"
| "js_add rnd _ PInf = PInf"
| "js_add rnd NInf _ = NInf"
| "js_add rnd _ NInf = NInf"
| "js_add rnd (Num a) (Num b) = rnd (a + b)"

definition js_sub :: "rounding \<Rightarrow> jsnum \<Rightarrow> jsnum \<Rightarrow> jsnum" where
  "js_sub rnd a b = js_add rnd a (js_neg b)"

fun js_mul :: "rounding \<Rightarrow> jsnum \<Rightarrow> jsnum \<Rightarrow> jsnum" where
  "js_mul rnd NaN _ = NaN"
| "js_mul rnd _ NaN = NaN"
| "js_mul rnd PInf PInf = PInf"
| "js_mul rnd PInf NInf = NInf"
| "js_mul rnd NInf PInf = NInf"
| "js_mul rnd NInf NInf = PInf"
| "js_mul rnd PInf (Num b) = (if b = 0 then NaN else if 0 < b then PInf else NInf)"
| "js_mul rnd NInf (Num b) = (if b = 0 then NaN else if 0 < b then NInf else PInf)"
| "js_mul rnd (Num a) PInf = (if a = 0 then NaN else if 0 < a then PInf else NInf)"
| "js_mul rnd (Num a) NInf = (if a = 0 then NaN else if 0 < a then NInf else PInf)"
| "js_mul rnd (Num a) (Num b) = rnd (a * b)"

text \<open>
  Division never raises in JavaScript: a non-zero value over zero is an infinity and
  zero over zero is NaN.
\<close>

fun js_div :: "rounding \<Rightarrow> jsnum \<Rightarrow> jsnum \<Rightarrow> jsnum" where
  "js_div rnd NaN _ = NaN"
| "js_div rnd _ NaN = NaN"
| "js_div rnd PInf PInf = NaN"
| "js_div rnd PInf NInf = NaN"
| "js_div rnd NInf PInf = NaN"
| "js_div rnd NInf NInf = NaN"
| "js_div rnd PInf (Num b) = (if 0 \<le> b then PInf else NInf)"
| "js_div rnd NInf (Num b) = (if 0 \<le> b then NInf else PInf)"
| "js_div rnd (Num a) PInf = Num 0"
| "js_div rnd (Num a) NInf = Num 0"
| "js_div rnd (Num a) (Num b) =
     (if b = 0 then (if a = 0 then NaN else if 0 < a then PInf else NInf)
      else rnd (a / b))"

text \<open>
  \<open>Math.pow\<close>, following the case order of the language definition
  (\<open>Number::exponentiate\<close>): a NaN exponent, a zero exponent, a NaN base, an infinite
  base, a zero base, an infinite exponent, a negative base with a fractional exponent,
  and last the real power. The language leaves the accuracy of the last case to the
  implementation; it is taken to be the rounded power, which is what implementations
  return at the two powers evaluated below under \<open>binary64\<close>, 1 to the 12th and the
  square root of 4.
\<close>

definition odd_integer :: "real \<Rightarrow> bool" where
  "odd_integer e = (e = of_int \<lfloor>e\<rfloor> \<and> odd \<lfloor>e\<rfloor>)"

definition real_pow :: "real \<Rightarrow> real \<Rightarrow> real" where
  "real_pow x e =
     (if 0 < x then x powr e
      else if odd_integer e then - ((- x) powr e) else (- x) powr e)"

fun js_pow :: "rounding \<Rightarrow> jsnum \<Rightarrow> jsnum \<Rightarrow> jsnum" where
  "js_pow rnd _ NaN = NaN"
| "js_pow rnd b (Num e) =
     (if e = 0 then Num 1
      else case b of
        NaN \<Rightarrow> NaN
      | PInf \<Rightarrow> if 0 < e then PInf else Num 0
      | NInf \<Rightarrow> if 0 < e then (if odd_integer e then NInf else PInf) else Num 0
      | Num x \<Rightarrow>
          if x = 0 then (if 0 < e then Num 0 else PInf)
          else if x < 0 \<and> e \<noteq> of_int \<lfloor>e\<rfloor> then NaN
          else rnd (real_pow x e))"
| "js_pow rnd b PInf =
     (case b of
        NaN \<Rightarrow> NaN
      | PInf \<Rightarrow> PInf
      | NInf \<Rightarrow> PInf
      | Num x \<Rightarrow> if 1 < \<bar>x\<bar> then PInf else if \<bar>x\<bar> = 1 then NaN else Num 0)"
| "js_pow rnd b NInf =
     (case b of
        NaN \<Rightarrow> NaN
      | PInf \<Rightarrow> Num 0
      | NInf \<Rightarrow> Num 0
      | Num x \<Rightarrow> if 1 < \<bar>x\<bar> then Num 0 else if \<bar>x\<bar> = 1 then NaN else PInf)"

text \<open>The relational operators \<open><\<close>, \<open><=\<close> and \<open>===\<close>: false whenever an operand is NaN.\<close>

fun js_lt :: "jsnum \<Rightarrow> jsnum \<Rightarrow> bool" where
  "js_lt NaN _ = False"
| "js_lt _ NaN = False"
| "js_lt (Num a) (Num b) = (a < b)"
| "js_lt NInf NInf = False"
| "js_lt NInf _ = True"
| "js_lt _ NInf = False"
| "js_lt PInf _ = False"
| "js_lt _ PInf = True"

definition js_le :: "jsnum \<Rightarrow> jsnum \<Rightarrow> bool" where
  "js_le a b = (a \<noteq> NaN \<and> b \<noteq> NaN \<and> \<not> js_lt b a)"

definition js_eq :: "jsnum \<Rightarrow> jsnum \<Rightarrow> bool" where
  "js_eq a b = (a \<noteq> NaN \<and> a = b)"

text \<open>\<open>Math.max\<close> of two arguments: NaN when either is NaN.\<close>

definition js_max :: "jsnum \<Rightarrow> jsnum \<Rightarrow> jsnum" where
  "js_max a b = (if a = NaN \<or> b = NaN then NaN else if js_lt a b then b else a)"

section \<open>Conversion of a form field to a number\<close>

text \<open>
  \<open>Number(s)\<close> on a string: white space is trimmed, the empty string is 0, and
  the rest must be a whole numeric literal (a signed decimal literal, \<open>Infinity\<close>,
  or an unsigned binary, octal or hexadecimal integer); anything else is NaN. The
  value of the literal is rounded once, so a literal too small for the format is 0 and
  one too large is infinite (the language lets an implementation round from the first
  20 significant digits; the rounding here is that of the whole literal, which is what
  the usual engines compute). Strings are byte strings here, so of the white space
  characters only the ASCII ones are recognised.
\<close>

definition StrWhiteSpaceChar :: "char \<Rightarrow> bool" where
  "StrWhiteSpaceChar c =
     (c = CHR 0x09 \<or> c = CHR 0x0A \<or> c = CHR 0x0B \<or> c = CHR 0x0C \<or> c = CHR 0x0D \<or> c = CHR 0x20)"

definition trim :: "string \<Rightarrow> string" where
  "trim s = rev (dropWhile StrWhiteSpaceChar (rev (dropWhile StrWhiteSpaceChar s)))"

text \<open>
  The value of a digit is its position among \<open>0123456789abcdef\<close>, with the capital
  letters standing for the same values as the small ones.
\<close>

fun index_from :: "nat \<Rightarrow> char \<Rightarrow> string \<Rightarrow> nat option" where
  "index_from i c [] = None"
| "index_from i c (x # xs) = (if x = c then Some i else index_from (i + 1) c xs)"

definition digit_value :: "char \<Rightarrow> nat option" where
  "digit_value c =
     (case index_from 0 c ''0123456789abcdef'' of
        Some v \<Rightarrow> Some v
      | None \<Rightarrow> index_from 10 c ''ABCDEF'')"

definition is_digit :: "nat \<Rightarrow> char \<Rightarrow> bool" where
  "is_digit base c = (case digit_value c of None \<Rightarrow> False | Some v \<Rightarrow> v < base)"

definition digits_value :: "nat \<Rightarrow> string \<Rightarrow> nat" where
  "digits_value base ds =
     foldl (\<lambda>acc c. acc * base + (case digit_value c of None \<Rightarrow> 0 | Some v \<Rightarrow> v)) 0 ds"

definition Digits :: "nat \<Rightarrow> string \<Rightarrow> nat option" where
  "Digits base ds =
     (if ds \<noteq> [] \<and> list_all (is_digit base) ds then Some (digits_value base ds) else None)"

definition SignedInteger :: "string \<Rightarrow> int option" where
  "SignedInteger s =
     (case s of
        [] \<Rightarrow> None
      | c # r \<Rightarrow>
          if c = CHR ''+'' then map_option int (Digits 10 r)
          else if c = CHR ''-'' then map_option (\<lambda>n. - int n) (Digits 10 r)
          else map_option int (Digits 10 s))"

definition ExponentPart :: "string \<Rightarrow> int option" where
  "ExponentPart s =
     (case s of
        [] \<Rightarrow> Some 0
      | c # r \<Rightarrow> if c = CHR ''e'' \<or> c = CHR ''E'' then SignedInteger r else None)"

definition scale10 :: "real \<Rightarrow> int \<Rightarrow> real" where
  "scale10 x e = (if 0 \<le> e then x * 10 ^ nat e else x / 10 ^ nat (- e))"

definition StrUnsignedDecimalLiteral :: "rounding \<Rightarrow> string \<Rightarrow> jsnum" where
  "StrUnsignedDecimalLiteral rnd s =
     (if s = ''Infinity'' then PInf
      else
        let ip = takeWhile (is_digit 10) s;
            r = dropWhile (is_digit 10) s;
            dot = (r \<noteq> [] \<and> hd r = CHR ''.'');
            fp = (if dot then takeWhile (is_digit 10) (tl r) else []);
            r' = (if dot then dropWhile (is_digit 10) (tl r) else r)
        in if ip = [] \<and> fp = [] then NaN
           else case ExponentPart r' of
                  None \<Rightarrow> NaN
                | Some e \<Rightarrow>
                    rnd (scale10 (real (digits_value 10 ip)
                                  + real (digits_value 10 fp) / 10 ^ length fp) e))"

definition NonDecimalIntegerLiteral :: "rounding \<Rightarrow> string \<Rightarrow> jsnum option" where
  "NonDecimalIntegerLiteral rnd s =
     (case s of
        z # x # ds \<Rightarrow>
          if z \<noteq> CHR ''0'' then None
          else if x = CHR ''b'' \<or> x = CHR ''B'' then map_option (\<lambda>n. rnd (real n)) (Digits 2 ds)
          else if x = CHR ''o'' \<or> x = CHR ''O'' then map_option (\<lambda>n. rnd (real n)) (Digits 8 ds)
          else if x = CHR ''x'' \<or> x = CHR ''X'' then map_option (\<lambda>n. rnd (real n)) (Digits 16 ds)
          else None
      | _ \<Rightarrow> None)"

definition Number_js :: "rounding \<Rightarrow> string \<Rightarrow> jsnum" where
  "Number_js rnd str =
     (let s = trim str
      in if s = [] then Num 0
         else case NonDecimalIntegerLiteral rnd s of
                Some v \<Rightarrow> v
              | None \<Rightarrow>
                  if hd s = CHR ''+'' then StrUnsignedDecimalLiteral rnd (tl s)
                  else if hd s = CHR ''-'' then js_neg (StrUnsignedDecimalLiteral rnd (tl s))
                  else StrUnsignedDecimalLiteral rnd s)"

section \<open>The form and its validation\<close>

text \<open>
  The component keeps the five form fields as strings, and \<open>validateForm\<close> converts
  each one with \<open>Number\<close> before comparing it. \<open>ValidationErrors\<close> has one optional
  message per field.
\<close>

record FormData =
  principal :: string
  tenure :: string
  rate :: string
  frequency :: string
  moratorium :: string

record ValidationErrors =
  err_principal :: "string option"
  err_tenure :: "string option"
  err_rate :: "string option"
  err_moratorium :: "string option"

definition no_errors :: ValidationErrors where
  "no_errors =
     \<lparr>err_principal = None, err_tenure = None, err_rate = None, err_moratorium = None\<rparr>"

text \<open>The four \<open>if\<close> statements of \<open>validateForm\<close>, each filling one field of \<open>newErrors\<close>.\<close>

definition newErrors :: "rounding \<Rightarrow> FormData \<Rightarrow> ValidationErrors" where
  "newErrors rnd data =
     \<lparr>err_principal =
        (if js_le (Number_js rnd (principal data)) (Num 0)
         then Some ''Principal amount must be greater than 0'' else None),
      err_tenure =
        (if js_le (Number_js rnd (tenure data)) (Num 0)
         then Some ''Tenure must be greater than 0'' else None),
      err_rate =
        (if js_lt (Number_js rnd (rate data)) (Num 0)
         then Some ''Interest rate cannot be negative'' else None),
      err_moratorium =
        (if js_lt (Number_js rnd (moratorium data)) (Num 0)
         then Some ''Moratorium period cannot be negative'' else None)\<rparr>"

text \<open>\<open>Object.keys(newErrors).length\<close>: the number of fields that carry a message.\<close>

definition keys_length :: "ValidationErrors \<Rightarrow> nat" where
  "keys_length e =
     length (filter (\<lambda>m. m \<noteq> None) [err_principal e, err_tenure e, err_rate e, err_moratorium e])"

section \<open>Calendar dates\<close>

text \<open>
  A \<open>Date\<close> object is modelled by its local calendar date: year, month (0 to 11) and
  day of the month (1 to 31), or it is the invalid date. A \<open>Date\<close> holds a time within
  100,000,000 days of the first of January 1970 and is invalid beyond. The time of
  day, which \<open>setMonth\<close> and \<open>setFullYear\<close> keep, and the time zone are left out; they
  move that limit by less than a day.
\<close>

datatype jsdate = InvalidDate | Date int int int

definition leap_year :: "int \<Rightarrow> bool" where
  "leap_year y = (y mod 4 = 0 \<and> (y mod 100 \<noteq> 0 \<or> y mod 400 = 0))"

definition DaysInMonth :: "int \<Rightarrow> int \<Rightarrow> int" where
  "DaysInMonth y m =
     (if m = 1 then (if leap_year y then 29 else 28)
      else if m = 3 \<or> m = 5 \<or> m = 8 \<or> m = 10 then 30
      else 31)"

text \<open>
  The number of days from the first of January 1970 to the first of January of a
  year (\<open>DayFromYear\<close>), the days of a year before a month, and from them the day
  number of the day reached by counting \<open>dt - 1\<close> days from the first of a month.
\<close>

definition DayFromYear :: "int \<Rightarrow> int" where
  "DayFromYear y =
     365 * (y - 1970) + (y - 1969) div 4 - (y - 1901) div 100 + (y - 1601) div 400"

definition DaysBeforeMonth :: "int \<Rightarrow> int \<Rightarrow> int" where
  "DaysBeforeMonth y m = sum_list (map (\<lambda>k. DaysInMonth y (int k)) [0..<nat m])"

definition day_number :: "int \<Rightarrow> int \<Rightarrow> int \<Rightarrow> int" where
  "day_number y m dt = DayFromYear y + DaysBeforeMonth y m + dt - 1"

text \<open>
  \<open>MakeDay(year, month, date)\<close> followed by \<open>TimeClip\<close>: the month is reduced into the
  year, and the result is the first day of that month plus \<open>date - 1\<close> days, or the
  invalid date when that day is out of range. For a day of the month between 1 and
  31, which is all a \<open>Date\<close> can hold, a day beyond the end of the month runs over into
  the month that follows, and never further.
\<close>

definition MakeDay :: "int \<Rightarrow> int \<Rightarrow> int \<Rightarrow> jsdate" where
  "MakeDay y m dt =
     (let ym = y + m div 12;
          mn = m mod 12;
          n = DaysInMonth ym mn
      in if 100000000 < \<bar>day_number ym mn dt\<bar> then InvalidDate
         else if dt \<le> n then Date ym mn dt
         else if mn = 11 then Date (ym + 1) 0 (dt - n)
         else Date ym (mn + 1) (dt - n))"

text \<open>\<open>ToIntegerOrInfinity\<close> on a finite number: truncation towards zero.\<close>

definition ToInteger :: "real \<Rightarrow> int" where
  "ToInteger r = (if 0 \<le> r then \<lfloor>r\<rfloor> else \<lceil>r\<rceil>)"

fun getMonth :: "jsdate \<Rightarrow> jsnum" where
  "getMonth InvalidDate = NaN"
| "getMonth (Date y m d) = Num (of_int m)"

fun getFullYear :: "jsdate \<Rightarrow> jsnum" where
  "getFullYear InvalidDate = NaN"
| "getFullYear (Date y m d) = Num (of_int y)"

fun setMonth :: "jsdate \<Rightarrow> jsnum \<Rightarrow> jsdate" where
  "setMonth (Date y m d) (Num r) = MakeDay y (ToInteger r) d"
| "setMonth _ _ = InvalidDate"

text \<open>
  \<open>setFullYear\<close> on the invalid date starts from the time value 0, that is from the
  first of January.
\<close>

fun setFullYear :: "jsdate \<Rightarrow> jsnum \<Rightarrow> jsdate" where
  "setFullYear (Date y m d) (Num r) = MakeDay (ToInteger r) m d"
| "setFullYear InvalidDate (Num r) = MakeDay (ToInteger r) 0 1"
| "setFullYear _ _ = InvalidDate"

section \<open>The component state and the amortization engine\<close>

record ScheduleRow =
  row_date :: jsdate
  payment :: jsnum
  interest :: jsnum
  row_principal :: jsnum
  balance :: jsnum

text \<open>
  The state hooks of the component that the calculation reads or writes: the start
  date (undefined until one is picked), the schedule on display, the loading flag,
  the validation messages and the form.
\<close>

record state =
  date :: "jsdate option"
  schedule :: "ScheduleRow list"
  loading :: bool
  errors :: ValidationErrors
  formData :: FormData

text \<open>\<open>validateForm\<close> stores the messages with \<open>setErrors\<close> and returns whether there are none.\<close>

definition validateForm :: "rounding \<Rightarrow> FormData \<Rightarrow> state \<Rightarrow> bool \<times> state" where
  "validateForm rnd data st =
     (keys_length (newErrors rnd data) = 0, st\<lparr>errors := newErrors rnd data\<rparr>)"

text \<open>
  The lookup \<open>{monthly: 12, quarterly: 4, "semi-annually": 2, annually: 1}[frequency]\<close>.
  A name that is no property of the object gives \<open>undefined\<close> (here \<open>None\<close>), which
  the guard that follows the lookup rejects. An object literal also answers to the
  names it inherits from \<open>Object.prototype\<close>: there the lookup gives a function or
  an object, which passes the guard and is NaN in arithmetic.
\<close>

definition object_prototype_names :: "string list" where
  "object_prototype_names =
     [''constructor'', ''hasOwnProperty'', ''isPrototypeOf'', ''propertyIsEnumerable'',
      ''toLocaleString'', ''toString'', ''valueOf'', ''__proto__'',
      ''__defineGetter__'', ''__defineSetter__'', ''__lookupGetter__'', ''__lookupSetter__'']"

definition periodsPerYear_lookup :: "string \<Rightarrow> jsnum option" where
  "periodsPerYear_lookup f =
     (if f = ''monthly'' then Some (Num 12)
      else if f = ''quarterly'' then Some (Num 4)
      else if f = ''semi-annually'' then Some (Num 2)
      else if f = ''annually'' then Some (Num 1)
      else if f \<in> set object_prototype_names then Some NaN
      else None)"

text \<open>
  The \<open>for\<close> loop of \<open>calculateSchedule\<close>. The counter starts at 0 and goes up by one;
  it is a natural number here, as counting is exact up to \<open>2^53\<close>, which is more rows
  than an array holds (\<open>2^32 - 1\<close>, a limit that is left out). The bound
  \<open>totalPeriods\<close> is any number, and with an infinite bound the loop does not end,
  which is the value \<open>None\<close>.
\<close>

partial_function (option) schedule_loop ::
  "rounding \<Rightarrow> jsnum \<Rightarrow> jsnum \<Rightarrow> jsnum \<Rightarrow> string \<Rightarrow> nat \<Rightarrow> jsnum \<Rightarrow> jsdate
     \<Rightarrow> ScheduleRow list \<Rightarrow> ScheduleRow list option" where
  "schedule_loop rnd totalPeriods periodicRate emi freq i bal currentDate newSchedule =
     (if js_lt (Num (real i)) totalPeriods then
        (let interest_i = js_mul rnd bal periodicRate;
             principal_i = js_sub rnd emi interest_i;
             bal' = js_sub rnd bal principal_i;
             newSchedule' = newSchedule @
               [\<lparr>row_date = currentDate, payment = emi, interest = interest_i,
                 row_principal = principal_i, balance = js_max (Num 0) bal'\<rparr>];
             currentDate' =
               (if freq = ''monthly'' then
                  setMonth currentDate (js_add rnd (getMonth currentDate) (Num 1))
                else if freq = ''quarterly'' then
                  setMonth currentDate (js_add rnd (getMonth currentDate) (Num 3))
                else if freq = ''semi-annually'' then
                  setMonth currentDate (js_add rnd (getMonth currentDate) (Num 6))
                else
                  setFullYear currentDate (js_add rnd (getFullYear currentDate) (Num 1)))
         in schedule_loop rnd totalPeriods periodicRate emi freq (Suc i) bal' currentDate'
              newSchedule')
      else Some newSchedule)"

text \<open>
  \<open>calculateSchedule\<close>, with its three early returns: a form that does not validate,
  no start date, and a frequency the lookup does not know. None of them raises an
  error, and the function has no \<open>throw\<close>: it either returns the next state or, when
  the loop does not end, never returns (\<open>None\<close>).
\<close>

definition calculateSchedule :: "rounding \<Rightarrow> state \<Rightarrow> state option" where
  "calculateSchedule rnd st =
     (let (ok, st1) = validateForm rnd (formData st) st
      in if \<not> ok then Some st1
         else
           let st2 = st1\<lparr>loading := True\<rparr>;
               principal_v = Number_js rnd (principal (formData st));
               tenure_v = Number_js rnd (tenure (formData st));
               rate_v = Number_js rnd (rate (formData st));
               freq = frequency (formData st);
               moratorium_v = Number_js rnd (moratorium (formData st))
           in case date st of
                None \<Rightarrow> Some (st2\<lparr>loading := False\<rparr>)
              | Some d \<Rightarrow>
                  (case periodsPerYear_lookup freq of
                     None \<Rightarrow> Some (st2\<lparr>loading := False\<rparr>)
                   | Some periodsPerYear \<Rightarrow>
                       let totalPeriods = js_mul rnd tenure_v periodsPerYear;
                           periodicRate =
                             js_div rnd (js_div rnd rate_v (Num 100)) periodsPerYear;
                           emi =
                             js_div rnd
                               (js_mul rnd (js_mul rnd principal_v periodicRate)
                                  (js_pow rnd (js_add rnd (Num 1) periodicRate) totalPeriods))
                               (js_sub rnd
                                  (js_pow rnd (js_add rnd (Num 1) periodicRate) totalPeriods)
                                  (Num 1));
                           currentDate = setMonth d (js_add rnd (getMonth d) moratorium_v)
                       in case schedule_loop rnd totalPeriods periodicRate emi freq 0
                                 principal_v currentDate [] of
                            None \<Rightarrow> None
                          | Some newSchedule \<Rightarrow>
                              Some (st2\<lparr>schedule := newSchedule, loading := False\<rparr>)))"

text \<open>
  The effect that runs on every change of the date or the form: it calls
  \<open>calculateSchedule\<close> once a date is picked and every field is a non-empty string
  (so the text \<open>0\<close> counts as filled in).
\<close>

definition effect :: "rounding \<Rightarrow> state \<Rightarrow> state option" where
  "effect rnd st =
     (if date st \<noteq> None
         \<and> list_all (\<lambda>v. v \<noteq> [])
             [principal (formData st), tenure (formData st), rate (formData st),
              frequency (formData st), moratorium (formData st)]
      then calculateSchedule rnd st else Some st)"

section \<open>The rows of a finite run of the loop\<close>

text \<open>
  \<open>rows n\<close> lists what \<open>n\<close> passes through the loop body push, from a given balance and
  date. It is the loop without its counter, and the lemmas below tie the two together.
\<close>

definition next_date :: "rounding \<Rightarrow> string \<Rightarrow> jsdate \<Rightarrow> jsdate" where
  "next_date rnd freq currentDate =
     (if freq = ''monthly'' then
        setMonth currentDate (js_add rnd (getMonth currentDate) (Num 1))
      else if freq = ''quarterly'' then
        setMonth currentDate (js_add rnd (getMonth currentDate) (Num 3))
      else if freq = ''semi-annually'' then
        setMonth currentDate (js_add rnd (getMonth currentDate) (Num 6))
      else
        setFullYear currentDate (js_add rnd (getFullYear currentDate) (Num 1)))"

definition next_balance :: "rounding \<Rightarrow> jsnum \<Rightarrow> jsnum \<Rightarrow> jsnum \<Rightarrow> jsnum" where
  "next_balance rnd periodicRate emi bal =
     js_sub rnd bal (js_sub rnd emi (js_mul rnd bal periodicRate))"

fun rows ::
  "rounding \<Rightarrow> nat \<Rightarrow> jsnum \<Rightarrow> jsnum \<Rightarrow> string \<Rightarrow> jsnum \<Rightarrow> jsdate \<Rightarrow> ScheduleRow list" where
  "rows rnd 0 periodicRate emi freq bal currentDate = []"
| "rows rnd (Suc n) periodicRate emi freq bal currentDate =
     \<lparr>row_date = currentDate, payment = emi, interest = js_mul rnd bal periodicRate,
       row_principal = js_sub rnd emi (js_mul rnd bal periodicRate),
       balance = js_max (Num 0) (next_balance rnd periodicRate emi bal)\<rparr>
     # rows rnd n periodicRate emi freq (next_balance rnd periodicRate emi bal)
         (next_date rnd freq currentDate)"

text \<open>
  Names for the values that \<open>calculateSchedule\<close> binds before the loop, as functions
  of the form and of the looked-up periods per year.
\<close>

definition periodicRate_of :: "rounding \<Rightarrow> FormData \<Rightarrow> jsnum \<Rightarrow> jsnum" where
  "periodicRate_of rnd data periodsPerYear =
     js_div rnd (js_div rnd (Number_js rnd (rate data)) (Num 100)) periodsPerYear"

definition totalPeriods_of :: "rounding \<Rightarrow> FormData \<Rightarrow> jsnum \<Rightarrow> jsnum" where
  "totalPeriods_of rnd data periodsPerYear =
     js_mul rnd (Number_js rnd (tenure data)) periodsPerYear"

definition emi_of :: "rounding \<Rightarrow> FormData \<Rightarrow> jsnum \<Rightarrow> jsnum" where
  "emi_of rnd data periodsPerYear =
     js_div rnd
       (js_mul rnd
          (js_mul rnd (Number_js rnd (principal data)) (periodicRate_of rnd data periodsPerYear))
          (js_pow rnd (js_add rnd (Num 1) (periodicRate_of rnd data periodsPerYear))
             (totalPeriods_of rnd data periodsPerYear)))
       (js_sub rnd
          (js_pow rnd (js_add rnd (Num 1) (periodicRate_of rnd data periodsPerYear))
             (totalPeriods_of rnd data periodsPerYear))
          (Num 1))"

definition first_date :: "rounding \<Rightarrow> FormData \<Rightarrow> jsdate \<Rightarrow> jsdate" where
  "first_date rnd data d =
     setMonth d (js_add rnd (getMonth d) (Number_js rnd (moratorium data)))"

text \<open>The dates of \<open>n\<close> passes through the loop, from a given date.\<close>

fun date_seq :: "rounding \<Rightarrow> nat \<Rightarrow> string \<Rightarrow> jsdate \<Rightarrow> jsdate list" where
  "date_seq rnd 0 freq currentDate = []"
| "date_seq rnd (Suc n) freq currentDate =
     currentDate # date_seq rnd n freq (next_date rnd freq currentDate)"

text \<open>
  The state of the component once a date is picked and the form is filled in, before
  the first calculation: no schedule, not loading, no messages.
\<close>

definition filled_in :: "jsdate \<Rightarrow> string \<Rightarrow> string \<Rightarrow> string \<Rightarrow> string \<Rightarrow> string \<Rightarrow> state" where
  "filled_in d p t r f m =
     \<lparr>date = Some d, schedule = [], loading = False, errors = no_errors,
      formData = \<lparr>principal = p, tenure = t, rate = r, frequency = f, moratorium = m\<rparr>\<rparr>"

section \<open>Notions used to state the properties\<close>

text \<open>The four numeric fields of a row, and the sum of the principal components.\<close>

definition numeric_fields :: "ScheduleRow \<Rightarrow> jsnum \<times> jsnum \<times> jsnum \<times> jsnum" where
  "numeric_fields row = (payment row, interest row, row_principal row, balance row)"





text \<open>
  Calendar-safe month addition, as the specification asks for it: the month moves
  by \<open>k\<close>, the year follows, and a day of the month that the new month does not have
  becomes its last day. This is the calendar's own notion and makes no use of the
  program's \<open>setMonth\<close>.
\<close>

fun plus_months :: "jsdate \<Rightarrow> int \<Rightarrow> jsdate" where
  "plus_months InvalidDate k = InvalidDate"
| "plus_months (Date y m d) k =
     Date (y + (m + k) div 12) ((m + k) mod 12)
       (min d (DaysInMonth (y + (m + k) div 12) ((m + k) mod 12)))"

text \<open>
  A date that a \<open>Date\<close> object can hold: a day that exists, within the range.
\<close>

fun valid_date :: "jsdate \<Rightarrow> bool" where
  "valid_date InvalidDate = False"
| "valid_date (Date y m d) =
     (0 \<le> m \<and> m < 12 \<and> 1 \<le> d \<and> d \<le> DaysInMonth y m \<and> \<bar>day_number y m d\<bar> \<le> 100000000)"

fun day_of_month :: "jsdate \<Rightarrow> int" where
  "day_of_month InvalidDate = 0"
| "day_of_month (Date y m d) = d"

text \<open>The months one pass of the loop moves the date by, for the four frequencies.\<close>

definition period_months :: "string \<Rightarrow> int" where
  "period_months freq =
     (if freq = ''monthly'' then 1 else if freq = ''quarterly'' then 3
      else if freq = ''semi-annually'' then 6 else 12)"

text \<open>A list of numbers in which each entry is \<open><=\<close> the one before it.\<close>

fun non_increasing :: "jsnum list \<Rightarrow> bool" where
  "non_increasing (x # y # zs) = (js_le y x \<and> non_increasing (y # zs))"
| "non_increasing _ = True"



section \<open>Rounding to binary64\<close>

text \<open>
  Values that the format holds are not changed by the rounding: the whole numbers
  below \<open>2^53\<close> in size and their halves among them. A value of 1 or more stays 1 or
  more, and a value below half of the smallest positive number of the format
  becomes 0.
\<close>

lemma round_half_even_of_int: "round_half_even (of_int z) = z"
  by (simp add: round_half_even_def)

lemma round_half_even_ge: "of_int z \<le> y \<Longrightarrow> z \<le> round_half_even y"
proof -
  assume "of_int z \<le> y"
  then have "z \<le> \<lfloor>y\<rfloor>" by (simp add: le_floor_iff)
  then show ?thesis by (simp add: round_half_even_def Let_def)
qed

lemma floor_log2_bounds:
  assumes "0 < x"
  shows "2 powr of_int \<lfloor>log 2 x\<rfloor> \<le> x \<and> x < 2 powr (of_int \<lfloor>log 2 x\<rfloor> + 1)"
  using floor_log_eq_powr_iff[of x 2 "\<lfloor>log 2 x\<rfloor>"] assms by simp

lemma two_powr_of_int_less: "(2 :: real) powr of_int a < 2 powr of_int b \<Longrightarrow> a < b"
  by simp

lemma two_powr_split: "(2 :: real) powr of_int (a + b) = 2 powr of_int a * 2 powr of_int b"
  by (simp only: of_int_add powr_add)

lemma two_powr_nat: "(2 :: real) powr of_int (int n) = 2 ^ n"
  by (simp add: powr_realpow)

lemma binary64_pos_representable:
  assumes x: "0 < x" and rep: "x = of_int m * 2 powr of_int j"
    and m: "m < 2 ^ 53" and j: "- 1074 \<le> j" and big: "x < 2 ^ 1024"
  shows "binary64_pos x = Num x"
proof -
  define E where "E = \<lfloor>log 2 x\<rfloor>"
  define e where "e = max E (- 1022)"
  define q :: real where "q = 2 powr of_int (e - 52)"
  have lo: "2 powr of_int E \<le> x"
    unfolding E_def using floor_log2_bounds[OF x] by (rule conjunct1)
  have q0: "0 < q"
    by (simp add: q_def)
  have "of_int m < (2 :: real) ^ 53"
    using m by (metis of_int_less_iff of_int_numeral of_int_power)
  then have "of_int m * 2 powr of_int j < (2 :: real) ^ 53 * 2 powr of_int j"
    by (intro mult_strict_right_mono) simp_all
  also have "(2 :: real) ^ 53 = 2 powr of_int (int 53)"
    by (simp only: two_powr_nat)
  also have "2 powr of_int (int 53) * 2 powr of_int j = (2 :: real) powr of_int (int 53 + j)"
    by (simp only: two_powr_split)
  finally have up: "of_int m * 2 powr of_int j < (2 :: real) powr of_int (int 53 + j)" .
  have "2 powr of_int E < (2 :: real) powr of_int (int 53 + j)"
    using lo[unfolded rep] up by (rule le_less_trans)
  then have "E < int 53 + j"
    by (rule two_powr_of_int_less)
  then have ej: "e - 52 \<le> j"
    using j by (simp add: e_def)
  define s where "s = nat (j - (e - 52))"
  have js: "j = (e - 52) + int s"
    using ej by (simp add: s_def)
  have "(2 :: real) powr of_int j = q * 2 ^ s"
    unfolding q_def by (subst js) (simp only: two_powr_split two_powr_nat)
  then have "x = of_int m * (q * 2 ^ s)"
    by (simp only: rep)
  then have "x / q = of_int m * 2 ^ s"
    using q0 by simp
  also have "\<dots> = of_int (m * 2 ^ s)"
    by simp
  finally have xq: "x / q = of_int (m * 2 ^ s)" .
  have "of_int (round_half_even (x / q)) * q = (x / q) * q"
    by (simp only: xq round_half_even_of_int)
  also have "\<dots> = x"
    using q0 by simp
  finally have r: "of_int (round_half_even (x / q)) * q = x" .
  have "binary64_pos x = (if 2 ^ 1024 \<le> of_int (round_half_even (x / q)) * q then PInf
      else Num (of_int (round_half_even (x / q)) * q))"
    by (simp only: binary64_pos_def Let_def q_def e_def E_def)
  then show ?thesis
    using big by (simp only: r) simp
qed

lemma binary64_pos_lower:
  assumes x: "0 < x" and n: "- 1022 \<le> \<lfloor>log 2 x\<rfloor>"
  shows "binary64_pos x = PInf \<or> (\<exists>r. binary64_pos x = Num r \<and> 2 powr of_int \<lfloor>log 2 x\<rfloor> \<le> r)"
proof -
  define E where "E = \<lfloor>log 2 x\<rfloor>"
  define q :: real where "q = 2 powr of_int (E - 52)"
  have lo: "2 powr of_int E \<le> x"
    unfolding E_def using floor_log2_bounds[OF x] by (rule conjunct1)
  have e: "max E (- 1022) = E"
    using n by (simp add: E_def)
  have q0: "0 < q"
    by (simp add: q_def)
  have "E = (E - 52) + int 52"
    by simp
  then have "(2 :: real) powr of_int E = 2 powr of_int ((E - 52) + int 52)"
    by (rule arg_cong)
  also have "\<dots> = q * 2 ^ 52"
    unfolding q_def by (simp only: two_powr_split two_powr_nat)
  finally have Eq: "(2 :: real) powr of_int E = q * 2 ^ 52" .
  have "q * 2 ^ 52 \<le> x"
    using lo by (simp only: Eq)
  then have "2 ^ 52 \<le> x / q"
    using q0 by (simp add: field_simps)
  then have "of_int (2 ^ 52) \<le> x / q"
    by simp
  then have "2 ^ 52 \<le> round_half_even (x / q)"
    by (rule round_half_even_ge)
  then have "of_int (2 ^ 52) \<le> (of_int (round_half_even (x / q)) :: real)"
    by (simp only: of_int_le_iff)
  then have "of_int (2 ^ 52) * q \<le> of_int (round_half_even (x / q)) * q"
    using q0 by (intro mult_right_mono) simp_all
  then have r: "2 powr of_int E \<le> of_int (round_half_even (x / q)) * q"
    by (simp add: Eq mult.commute)
  have "binary64_pos x = (if 2 ^ 1024 \<le> of_int (round_half_even (x / q)) * q then PInf
      else Num (of_int (round_half_even (x / q)) * q))"
    by (simp only: binary64_pos_def Let_def q_def e E_def[symmetric])
  then show ?thesis
    using r unfolding E_def[symmetric] by (cases "2 ^ 1024 \<le> of_int (round_half_even (x / q)) * q") simp_all
qed

lemma binary64_pos_underflow:
  assumes x: "0 < x" and small: "x < 2 powr of_int (- 1075)"
  shows "binary64_pos x = Num 0"
proof -
  define E where "E = \<lfloor>log 2 x\<rfloor>"
  define q :: real where "q = 2 powr of_int (- 1022 - 52)"
  have lo: "2 powr of_int E \<le> x"
    unfolding E_def using floor_log2_bounds[OF x] by (rule conjunct1)
  have "2 powr of_int E < (2 :: real) powr of_int (- 1075)"
    using lo small by (rule le_less_trans)
  then have "E < - 1075"
    by (rule two_powr_of_int_less)
  then have e: "max E (- 1022) = - 1022"
    by simp
  have q0: "0 < q"
    by (simp add: q_def)
  have "(- 1074 :: int) = - 1075 + 1"
    by simp
  then have "(2 :: real) powr of_int (- 1074) = 2 powr of_int (- 1075 + 1)"
    by (rule arg_cong)
  also have "\<dots> = 2 powr of_int (- 1075) * 2"
    by (simp only: two_powr_split) simp
  finally have "q = 2 powr of_int (- 1075) * 2"
    by (simp add: q_def)
  then have "x * 2 < q"
    using small by simp
  then have h: "x / q < 1 / 2"
    using q0 by (simp add: field_simps)
  have p: "0 \<le> x / q"
    using x q0 by simp
  have h1: "x / q < of_int 0 + 1"
    using h by linarith
  have p0: "of_int 0 \<le> x / q"
    using p by simp
  have f: "\<lfloor>x / q\<rfloor> = 0"
    using p0 h1 by (rule floor_unique)
  have z: "round_half_even (x / q) = 0"
    using h by (simp only: round_half_even_def Let_def f) simp
  have "binary64_pos x = (if 2 ^ 1024 \<le> of_int (round_half_even (x / q)) * q then PInf
      else Num (of_int (round_half_even (x / q)) * q))"
    by (simp only: binary64_pos_def Let_def q_def e E_def[symmetric])
  then show ?thesis
    by (simp only: z) simp
qed

lemma binary64_0: "binary64 0 = Num 0"
  by (simp add: binary64_def)

lemma binary64_dyadic:
  assumes m: "\<bar>m\<bar> < 2 ^ 53" and j: "- 1074 \<le> j"
    and big: "\<bar>of_int m * 2 powr of_int j\<bar> < (2 :: real) ^ 1024"
  shows "binary64 (of_int m * 2 powr of_int j) = Num (of_int m * 2 powr of_int j)"
proof -
  have p: "0 < (2 :: real) powr of_int j"
    by simp
  consider "m = 0" | "0 < m" | "m < 0"
    by linarith
  then show ?thesis
  proof cases
    case 1
    then show ?thesis by (simp add: binary64_0)
  next
    case 2
    then have x: "0 < of_int m * (2 :: real) powr of_int j"
      using p by simp
    have "binary64_pos (of_int m * 2 powr of_int j) = Num (of_int m * 2 powr of_int j)"
      using x refl _ j
    proof (rule binary64_pos_representable)
      show "m < 2 ^ 53" using m by simp
      show "of_int m * 2 powr of_int j < (2 :: real) ^ 1024" using big x by simp
    qed
    then show ?thesis
      using x by (simp only: binary64_def) simp
  next
    case 3
    then have x: "of_int m * (2 :: real) powr of_int j < 0"
      using p by (simp add: mult_neg_pos)
    then have nx: "0 < - (of_int m * (2 :: real) powr of_int j)"
      by simp
    have e: "- (of_int m * (2 :: real) powr of_int j) = of_int (- m) * 2 powr of_int j"
      by simp
    have "binary64_pos (- (of_int m * 2 powr of_int j)) = Num (- (of_int m * 2 powr of_int j))"
      using nx e _ j
    proof (rule binary64_pos_representable)
      show "- m < 2 ^ 53" using m by simp
      show "- (of_int m * 2 powr of_int j) < (2 :: real) ^ 1024" using big x by simp
    qed
    then show ?thesis
      using x by (simp only: binary64_def) simp
  qed
qed

lemma binary64_of_int:
  assumes "\<bar>k\<bar> < 2 ^ 53"
  shows "binary64 (of_int k) = Num (of_int k)"
proof -
  have "\<bar>of_int k :: real\<bar> < 2 ^ 53"
    using assms by (metis of_int_abs of_int_less_iff of_int_numeral of_int_power)
  also have "(2 :: real) ^ 53 \<le> 2 ^ 1024"
    by (rule power_increasing) simp_all
  finally have "\<bar>of_int k * 2 powr of_int 0\<bar> < (2 :: real) ^ 1024"
    by simp
  with binary64_dyadic[OF assms, of 0] show ?thesis
    by simp
qed

lemma binary64_of_nat: "n < 2 ^ 53 \<Longrightarrow> binary64 (real n) = Num (real n)"
  using binary64_of_int[of "int n"] by simp

lemma binary64_numeral:
  "(numeral w :: int) < 2 ^ 53 \<Longrightarrow> binary64 (numeral w) = Num (numeral w)"
  using binary64_of_int[of "numeral w"] by simp

lemma binary64_neg_numeral:
  "(numeral w :: int) < 2 ^ 53 \<Longrightarrow> binary64 (- numeral w) = Num (- numeral w)"
  using binary64_of_int[of "- numeral w"] by simp

lemma binary64_1: "binary64 1 = Num 1"
  using binary64_of_int[of 1] by simp

lemma binary64_halves:
  assumes "\<bar>k\<bar> < 2 ^ 53"
  shows "binary64 (of_int k / 2) = Num (of_int k / 2)"
proof -
  have h: "(2 :: real) powr of_int (- 1) = 1 / 2"
    by (simp add: powr_minus_divide)
  have "\<bar>of_int k :: real\<bar> < 2 ^ 53"
    using assms by (metis of_int_abs of_int_less_iff of_int_numeral of_int_power)
  also have "(2 :: real) ^ 53 \<le> 2 ^ 1024"
    by (rule power_increasing) simp_all
  finally have "\<bar>of_int k * 2 powr of_int (- 1)\<bar> < (2 :: real) ^ 1024"
    unfolding h by simp
  with binary64_dyadic[OF assms, of "- 1"] show ?thesis
    unfolding h by simp
qed

lemma binary64_pos_at_least:
  assumes a: "- 1022 \<le> a" and x: "2 powr of_int a \<le> x"
  shows "binary64_pos x = PInf \<or> (\<exists>r. binary64_pos x = Num r \<and> 2 powr of_int a \<le> r)"
proof -
  have x0: "0 < x"
    using x by (rule less_le_trans[rotated]) simp
  define E where "E = \<lfloor>log 2 x\<rfloor>"
  have hi: "x < 2 powr of_int (E + 1)"
    unfolding E_def using floor_log2_bounds[OF x0] by simp
  have "2 powr of_int a < (2 :: real) powr of_int (E + 1)"
    using x hi by (rule le_less_trans)
  then have "a < E + 1"
    by (rule two_powr_of_int_less)
  then have aE: "a \<le> E"
    by simp
  have "- 1022 \<le> E"
    using a aE by (rule order_trans)
  then have n: "- 1022 \<le> \<lfloor>log 2 x\<rfloor>"
    by (simp only: E_def)
  have mono: "(2 :: real) powr of_int a \<le> 2 powr of_int E"
    using aE by simp
  from binary64_pos_lower[OF x0 n] show ?thesis
  proof
    assume "binary64_pos x = PInf"
    then show ?thesis by (rule disjI1)
  next
    assume "\<exists>r. binary64_pos x = Num r \<and> 2 powr of_int \<lfloor>log 2 x\<rfloor> \<le> r"
    then obtain r where r: "binary64_pos x = Num r" and le: "2 powr of_int E \<le> r"
      unfolding E_def by blast
    have "2 powr of_int a \<le> r"
      using mono le by (rule order_trans)
    with r show ?thesis by blast
  qed
qed


lemma binary64_at_most_minus_1:
  assumes "x \<le> - 1"
  shows "binary64 x = NInf \<or> (\<exists>r. binary64 x = Num r \<and> r \<le> - 1)"
proof -
  have "(2 :: real) powr of_int 0 \<le> - x"
    using assms by simp
  then have "binary64_pos (- x) = PInf
      \<or> (\<exists>r. binary64_pos (- x) = Num r \<and> 2 powr of_int 0 \<le> r)"
    by (intro binary64_pos_at_least) simp_all
  moreover have "binary64 x = js_neg (binary64_pos (- x))"
    using assms by (simp add: binary64_def)
  ultimately show ?thesis
    by auto
qed

lemma binary64_underflow:
  assumes "\<bar>x\<bar> < 2 powr of_int (- 1075)"
  shows "binary64 x = Num 0"
proof -
  consider "x = 0" | "0 < x" | "x < 0"
    by linarith
  then show ?thesis
  proof cases
    case 1
    then show ?thesis by (simp add: binary64_0)
  next
    case 2
    then have "binary64_pos x = Num 0"
      using assms by (intro binary64_pos_underflow) simp_all
    then show ?thesis
      using 2 by (simp add: binary64_def)
  next
    case 3
    then have "binary64_pos (- x) = Num 0"
      using assms by (intro binary64_pos_underflow) simp_all
    then show ?thesis
      using 3 by (simp add: binary64_def)
  qed
qed

lemma binary64_nonneg:
  assumes "0 \<le> x" and "binary64 x = Num n"
  shows "0 \<le> n"
proof (cases "x = 0")
  case True
  with assms(2) show ?thesis by (simp add: binary64_0)
next
  case False
  with assms(1) have x: "0 < x" by simp
  define q :: real where "q = 2 powr of_int (max \<lfloor>log 2 x\<rfloor> (- 1022) - 52)"
  have q0: "0 < q"
    by (simp add: q_def)
  have "of_int 0 \<le> x / q"
    using x q0 by simp
  then have "0 \<le> round_half_even (x / q)"
    by (rule round_half_even_ge)
  then have r: "0 \<le> of_int (round_half_even (x / q)) * q"
    using q0 by simp
  have "binary64 x = (if 2 ^ 1024 \<le> of_int (round_half_even (x / q)) * q then PInf
      else Num (of_int (round_half_even (x / q)) * q))"
    using x by (simp only: binary64_def binary64_pos_def Let_def q_def) simp
  with assms(2) have "n = of_int (round_half_even (x / q)) * q"
    by (simp split: if_splits)
  with r show ?thesis by simp
qed

lemma binary64_whole_small:
  assumes "binary64 (real k) = Num n" and "n \<le> 4294967295"
  shows "n = real k"
proof (cases "k < 2 ^ 53")
  case True
  from binary64_of_nat[OF True] assms(1) show ?thesis by simp
next
  case False
  then have "(2 :: nat) ^ 53 \<le> k" by simp
  then have "real ((2 :: nat) ^ 53) \<le> real k"
    by (simp only: of_nat_le_iff)
  then have k: "(2 :: real) ^ 53 \<le> real k" by simp
  then have x: "(2 :: real) powr of_int (int 53) \<le> real k"
    by (simp only: two_powr_nat)
  have k0: "0 < real k"
    using k by (rule less_le_trans[rotated]) simp
  have "binary64_pos (real k) = PInf
      \<or> (\<exists>r. binary64_pos (real k) = Num r \<and> 2 powr of_int (int 53) \<le> r)"
    using _ x by (rule binary64_pos_at_least) simp
  moreover have "binary64 (real k) = binary64_pos (real k)"
    using k0 by (simp add: binary64_def)
  ultimately have "(2 :: real) powr of_int (int 53) \<le> n"
    using assms(1) by auto
  then have "(2 :: real) ^ 53 \<le> n"
    by (simp only: two_powr_nat)
  with assms(2) show ?thesis by simp
qed

lemma round_half_even_near:
  assumes "\<bar>y - of_int m\<bar> < 1 / 2"
  shows "round_half_even y = m"
proof (cases "of_int m \<le> y")
  case True
  have "y < of_int m + 1"
    using assms by linarith
  with True have f: "\<lfloor>y\<rfloor> = m"
    by (rule floor_unique)
  have "y - of_int m < 1 / 2"
    using assms by linarith
  then show ?thesis
    by (simp add: round_half_even_def Let_def f)
next
  case False
  have "of_int m - 1 \<le> y"
    using assms by linarith
  then have 1: "of_int (m - 1) \<le> y"
    by simp
  have 2: "y < of_int (m - 1) + 1"
    using False by simp
  have f: "\<lfloor>y\<rfloor> = m - 1"
    using 1 2 by (rule floor_unique)
  have "1 / 2 < y - (of_int m - 1)"
    using assms by linarith
  then have "1 / 2 < y - of_int (m - 1)"
    by simp
  then show ?thesis
    by (simp add: round_half_even_def Let_def f)
qed

lemma binary64_pos_near:
  assumes lo: "2 powr of_int e \<le> x" and hi: "x < 2 powr of_int (e + 1)" and e: "- 1022 \<le> e"
    and m: "\<bar>x / 2 powr of_int (e - 52) - of_int m\<bar> < 1 / 2"
    and r: "of_int m * 2 powr of_int (e - 52) < (2 :: real) ^ 1024"
  shows "binary64_pos x = Num (of_int m * 2 powr of_int (e - 52))"
proof -
  have x0: "0 < x"
    using lo by (rule less_le_trans[rotated]) simp
  have "x < 2 powr (of_int e + 1)"
    using hi by simp
  with lo have "\<lfloor>log 2 x\<rfloor> = e"
    using floor_log_eq_powr_iff[of x 2 e] x0 by simp
  then have E: "max \<lfloor>log 2 x\<rfloor> (- 1022) = e"
    using e by simp
  have "binary64_pos x =
      (if (2 :: real) ^ 1024
            \<le> of_int (round_half_even (x / 2 powr of_int (e - 52))) * 2 powr of_int (e - 52)
       then PInf
       else Num (of_int (round_half_even (x / 2 powr of_int (e - 52))) * 2 powr of_int (e - 52)))"
    by (simp only: binary64_pos_def Let_def E)
  then show ?thesis
    using r by (simp only: round_half_even_near[OF m]) simp
qed

lemma round_half_even_tie:
  assumes "even m"
  shows "round_half_even (of_int m + 1 / 2) = m"
proof -
  have 1: "of_int m \<le> (of_int m + 1 / 2 :: real)"
    by simp
  have 2: "(of_int m + 1 / 2 :: real) < of_int m + 1"
    by simp
  have f: "\<lfloor>of_int m + 1 / 2 :: real\<rfloor> = m"
    using 1 2 by (rule floor_unique)
  show ?thesis
    using assms by (simp add: round_half_even_def Let_def f)
qed

lemma binary64_pos_tie_even:
  assumes lo: "2 powr of_int e \<le> x" and hi: "x < 2 powr of_int (e + 1)" and e: "- 1022 \<le> e"
    and m: "x / 2 powr of_int (e - 52) = of_int m + 1 / 2" and ev: "even m"
    and r: "of_int m * 2 powr of_int (e - 52) < (2 :: real) ^ 1024"
  shows "binary64_pos x = Num (of_int m * 2 powr of_int (e - 52))"
proof -
  have x0: "0 < x"
    using lo by (rule less_le_trans[rotated]) simp
  have "x < 2 powr (of_int e + 1)"
    using hi by simp
  with lo have "\<lfloor>log 2 x\<rfloor> = e"
    using floor_log_eq_powr_iff[of x 2 e] x0 by simp
  then have E: "max \<lfloor>log 2 x\<rfloor> (- 1022) = e"
    using e by simp
  have "binary64_pos x =
      (if (2 :: real) ^ 1024
            \<le> of_int (round_half_even (x / 2 powr of_int (e - 52))) * 2 powr of_int (e - 52)
       then PInf
       else Num (of_int (round_half_even (x / 2 powr of_int (e - 52))) * 2 powr of_int (e - 52)))"
    by (simp only: binary64_pos_def Let_def E)
  then show ?thesis
    using r by (simp only: m round_half_even_tie[OF ev]) simp
qed

section \<open>Lemmas on the loop and on a run of the engine\<close>

lemma schedule_loop_finite:
  "schedule_loop rnd (Num t) r e f i b d acc = Some (acc @ rows rnd (nat \<lceil>t\<rceil> - i) r e f b d)"
proof (induction "nat \<lceil>t\<rceil> - i" arbitrary: i b d acc)
  case 0
  then have "\<not> real i < t" by linarith
  then show ?case using 0 by (subst schedule_loop.simps) simp
next
  case (Suc k)
  then have lt: "real i < t" by linarith
  have k: "k = nat \<lceil>t\<rceil> - Suc i" using Suc.hyps(2) by simp
  have s: "nat \<lceil>t\<rceil> - i = Suc (nat \<lceil>t\<rceil> - Suc i)" using Suc.hyps(2) by simp
  show ?case
    by (subst schedule_loop.simps)
       (simp add: lt Suc.hyps(1)[OF k] s next_balance_def next_date_def Let_def)
qed

lemma schedule_loop_NaN: "schedule_loop rnd NaN r e f i b d acc = Some acc"
  by (subst schedule_loop.simps) simp

lemma schedule_loop_NInf: "schedule_loop rnd NInf r e f i b d acc = Some acc"
  by (subst schedule_loop.simps) simp

lemma schedule_loop_PInf: "schedule_loop rnd PInf r e f i b d acc = None"
proof (cases "schedule_loop rnd PInf r e f i b d acc")
  case (Some y)
  then have "PInf \<noteq> PInf"
    by (rule schedule_loop.raw_induct[where P = "\<lambda>_ tp _ _ _ _ _ _ _ _. tp \<noteq> PInf", rotated])
       (auto split: if_splits simp: Let_def)
  then show ?thesis by simp
qed simp

lemma calculateSchedule_rows:
  assumes "keys_length (newErrors rnd (formData st)) = 0"
    and "date st = Some d"
    and "periodsPerYear_lookup (frequency (formData st)) = Some ppy"
    and "totalPeriods_of rnd (formData st) ppy = Num n"
  shows "calculateSchedule rnd st =
           Some (st\<lparr>schedule :=
                      rows rnd (nat \<lceil>n\<rceil>) (periodicRate_of rnd (formData st) ppy)
                        (emi_of rnd (formData st) ppy) (frequency (formData st))
                        (Number_js rnd (principal (formData st))) (first_date rnd (formData st) d),
                    loading := False, errors := newErrors rnd (formData st)\<rparr>)"
  using assms
  by (simp add: calculateSchedule_def validateForm_def Let_def schedule_loop_finite
      periodicRate_of_def totalPeriods_of_def emi_of_def first_date_def)

lemma length_rows: "length (rows rnd n r e f b d) = n"
  by (induction n arbitrary: b d) simp_all

lemma payment_rows: "map payment (rows rnd n r e f b d) = replicate n e"
  by (induction n arbitrary: b d) simp_all

lemma row_date_rows: "map row_date (rows rnd n r e f b d) = date_seq rnd n f d"
  by (induction n arbitrary: b d) simp_all

lemmas number_defs = Number_js_def trim_def StrWhiteSpaceChar_def NonDecimalIntegerLiteral_def
  StrUnsignedDecimalLiteral_def ExponentPart_def SignedInteger_def Digits_def digits_value_def
  is_digit_def digit_value_def scale10_def

lemmas binary64_values = binary64_0 binary64_1 binary64_numeral binary64_neg_numeral

lemma Number_js_0: "Number_js binary64 ''0'' = Num 0"
  by (simp add: number_defs binary64_values)

lemma Number_js_1: "Number_js binary64 ''1'' = Num 1"
  by (simp add: number_defs binary64_values)

lemma Number_js_12: "Number_js binary64 ''12'' = Num 12"
  by (simp add: number_defs binary64_values)

lemma Number_js_1000: "Number_js binary64 ''1000'' = Num 1000"
  by (simp add: number_defs binary64_values)

lemma Number_js_12000: "Number_js binary64 ''12000'' = Num 12000"
  by (simp add: number_defs binary64_values)

lemma Number_js_abc: "Number_js rnd ''abc'' = NaN"
  by (simp add: number_defs)

lemmas Number_js_examples = Number_js_0 Number_js_1 Number_js_12 Number_js_1000 Number_js_12000
  Number_js_abc

lemma schedule_filled_in:
  assumes "keys_length (newErrors rnd \<lparr>principal = p, tenure = t, rate = r, frequency = f,
              moratorium = m\<rparr>) = 0"
    and "periodsPerYear_lookup f = Some ppy"
    and "totalPeriods_of rnd \<lparr>principal = p, tenure = t, rate = r, frequency = f,
              moratorium = m\<rparr> ppy = Num n"
  shows "map_option (\<lambda>s. g (schedule s)) (calculateSchedule rnd (filled_in d p t r f m)) =
           Some (g (rows rnd (nat \<lceil>n\<rceil>)
                   (periodicRate_of rnd \<lparr>principal = p, tenure = t, rate = r, frequency = f,
                      moratorium = m\<rparr> ppy)
                   (emi_of rnd \<lparr>principal = p, tenure = t, rate = r, frequency = f,
                      moratorium = m\<rparr> ppy)
                   f (Number_js rnd p)
                   (first_date rnd \<lparr>principal = p, tenure = t, rate = r, frequency = f,
                      moratorium = m\<rparr> d)))"
proof -
  let ?st = "filled_in d p t r f m"
  have fd: "formData ?st = \<lparr>principal = p, tenure = t, rate = r, frequency = f,
      moratorium = m\<rparr>"
    by (simp add: filled_in_def)
  have v: "keys_length (newErrors rnd (formData ?st)) = 0"
    using assms(1) by (simp add: fd)
  have d: "date ?st = Some d"
    by (simp add: filled_in_def)
  have f: "periodsPerYear_lookup (frequency (formData ?st)) = Some ppy"
    using assms(2) by (simp add: fd)
  have n: "totalPeriods_of rnd (formData ?st) ppy = Num n"
    using assms(3) by (simp add: fd)
  show ?thesis
    using calculateSchedule_rows[OF v d f n] by (simp add: fd)
qed

lemma Number_js_minus_1: "Number_js binary64 ''-1'' = Num (- 1)"
  by (simp add: number_defs binary64_values)

lemma binary64_3_2: "binary64 (3 / 2) = Num (3 / 2)"
  using binary64_halves[of 3] by simp

lemma Number_js_1_5: "Number_js binary64 ''1.5'' = Num (3 / 2)"
  by (simp add: number_defs binary64_3_2)

lemma validated_keys: "fst (validateForm rnd data st) = (keys_length (newErrors rnd data) = 0)"
  by (simp add: validateForm_def)

lemma validated_tenure:
  assumes "keys_length (newErrors rnd data) = 0" and "Number_js rnd (tenure data) = Num t"
  shows "0 < t"
  using assms by (auto simp: keys_length_def newErrors_def js_le_def split: if_splits)

lemma lookup_monthly: "periodsPerYear_lookup ''monthly'' = Some (Num 12)"
  by (simp add: periodsPerYear_lookup_def)
lemma lookup_quarterly: "periodsPerYear_lookup ''quarterly'' = Some (Num 4)"
  by (simp add: periodsPerYear_lookup_def)
lemma lookup_semi_annually: "periodsPerYear_lookup ''semi-annually'' = Some (Num 2)"
  by (simp add: periodsPerYear_lookup_def)
lemma lookup_annually: "periodsPerYear_lookup ''annually'' = Some (Num 1)"
  by (simp add: periodsPerYear_lookup_def)
lemma lookup_known:
  assumes "(f, ppy) \<in>
     {(''monthly'', 12), (''quarterly'', 4), (''semi-annually'', 2), (''annually'', 1 :: real)}"
  shows "periodsPerYear_lookup f = Some (Num ppy) \<and> 0 < ppy"
proof -
  from assms have "f = ''monthly'' \<and> ppy = 12 \<or> f = ''quarterly'' \<and> ppy = 4
    \<or> f = ''semi-annually'' \<and> ppy = 2 \<or> f = ''annually'' \<and> ppy = 1"
    by simp
  then show ?thesis
    using lookup_monthly lookup_quarterly lookup_semi_annually lookup_annually
    by (elim disjE conjE) (simp_all only: zero_less_numeral zero_less_one simp_thms)
qed

section \<open>Validation\<close>















text \<open>
  A number too small for the format converts to 0: the text \<open>1e-400\<close> is 0 to the
  program, and so fails the check on the principal.
\<close>

lemma Number_js_1e_minus_400: "Number_js binary64 ''1e-400'' = Num 0"
proof -
  have "(2 :: real) ^ 1075 < 10 ^ 400"
    by simp
  then have "1 / (10 :: real) ^ 400 < 1 / 2 ^ 1075"
    by (simp add: field_simps)
  also have "1 / (2 :: real) ^ 1075 = 2 powr of_int (- 1075)"
    by (simp add: powr_minus_divide powr_realpow)
  finally have "\<bar>1 / (10 :: real) ^ 400\<bar> < 2 powr of_int (- 1075)"
    by simp
  then have "binary64 (1 / 10 ^ 400) = Num 0"
    by (rule binary64_underflow)
  then show ?thesis
    by (simp add: number_defs)
qed



text \<open>
  C10. There is a raw form with a non-numeric field that validation accepts. The text
  \<open>abc\<close> converts to NaN, both comparisons of NaN with 0 are false, and a form whose
  principal, tenure, rate and moratorium are all \<open>abc\<close> validates with no message.
  With only the principal non-numeric, the change effect runs \<open>calculateSchedule\<close>,
  which stores no message and computes on NaN: twelve rows whose payment, interest,
  principal component and balance are all NaN.
\<close>

theorem C10_non_numeric_field_passes_validation:
  "Number_js binary64 ''abc'' = NaN \<and> \<not> js_le NaN (Num 0) \<and> \<not> js_lt NaN (Num 0)
   \<and> validateForm binary64 \<lparr>principal = ''abc'', tenure = ''abc'', rate = ''abc'',
                    frequency = ''monthly'', moratorium = ''abc''\<rparr> st
       = (True, st\<lparr>errors := no_errors\<rparr>)
   \<and> effect binary64 (filled_in (Date 2024 0 1) ''abc'' ''1'' ''12'' ''monthly'' ''0'')
       = calculateSchedule binary64 (filled_in (Date 2024 0 1) ''abc'' ''1'' ''12'' ''monthly'' ''0'')
   \<and> map_option (\<lambda>s. (errors s, map numeric_fields (schedule s)))
        (calculateSchedule binary64 (filled_in (Date 2024 0 1) ''abc'' ''1'' ''12'' ''monthly'' ''0''))
       = Some (no_errors, replicate 12 (NaN, NaN, NaN, NaN))"
proof -
  let ?st = "filled_in (Date 2024 0 1) ''abc'' ''1'' ''12'' ''monthly'' ''0''"
  let ?fd = "\<lparr>principal = ''abc'', tenure = ''1'', rate = ''12'',
      frequency = ''monthly'', moratorium = ''0''\<rparr>"
  have fd: "formData ?st = ?fd"
    by (simp add: filled_in_def)
  have e: "effect binary64 ?st = calculateSchedule binary64 ?st"
    by (simp add: effect_def filled_in_def)
  have ne: "newErrors binary64 ?fd = no_errors"
    by (simp add: newErrors_def no_errors_def Number_js_examples js_le_def)
  have v: "keys_length (newErrors binary64 (formData ?st)) = 0"
    by (simp add: fd ne) (simp add: keys_length_def no_errors_def)
  have d: "date ?st = Some (Date 2024 0 1)"
    by (simp add: filled_in_def)
  have f: "periodsPerYear_lookup (frequency (formData ?st)) = Some (Num 12)"
    by (simp add: fd periodsPerYear_lookup_def)
  have n: "totalPeriods_of binary64 ?fd (Num 12) = Num 12"
    by (simp add: totalPeriods_of_def Number_js_examples binary64_values)
  have m: "emi_of binary64 ?fd (Num 12) = NaN"
    by (simp add: emi_of_def Number_js_examples)
  have rw: "map numeric_fields (rows binary64 12 r NaN ''monthly'' NaN dd)
        = replicate 12 (NaN, NaN, NaN, NaN)" for r dd
    by (simp add: eval_nat_numeral next_balance_def js_sub_def js_max_def numeric_fields_def)
  have c: "map_option (\<lambda>s. (errors s, map numeric_fields (schedule s)))
        (calculateSchedule binary64 ?st)
       = Some (no_errors, replicate 12 (NaN, NaN, NaN, NaN))"
    using calculateSchedule_rows[OF v d f, of 12]
    by (simp add: fd m n ne rw Number_js_examples)
  have a: "validateForm binary64 \<lparr>principal = ''abc'', tenure = ''abc'', rate = ''abc'',
                    frequency = ''monthly'', moratorium = ''abc''\<rparr> st
       = (True, st\<lparr>errors := no_errors\<rparr>)"
    by (simp add: validateForm_def newErrors_def keys_length_def no_errors_def
        Number_js_examples js_le_def)
  show ?thesis
    using a e c by (simp add: Number_js_examples js_le_def)
qed

section \<open>The zero rate\<close>

text \<open>
  The form with principal 12000, one year, rate 0, monthly: it validates, the periodic
  rate is 0, and the payment is \<open>(12000 * 0 * 1) / (1 - 1)\<close>, which is NaN. The
  schedule is the twelve rows that the loop computes from there.
\<close>

lemma zero_rate_run:
  "map_option (\<lambda>s. g (schedule s))
     (calculateSchedule binary64 (filled_in d ''12000'' ''1'' ''0'' ''monthly'' ''0''))
   = Some (g (rows binary64 12 (Num 0) NaN ''monthly'' (Num 12000)
               (first_date binary64 \<lparr>principal = ''12000'', tenure = ''1'', rate = ''0'',
                  frequency = ''monthly'', moratorium = ''0''\<rparr> d)))"
proof -
  let ?fd = "\<lparr>principal = ''12000'', tenure = ''1'', rate = ''0'',
      frequency = ''monthly'', moratorium = ''0''\<rparr>"
  have v: "keys_length (newErrors binary64 ?fd) = 0"
    by (simp add: keys_length_def newErrors_def Number_js_examples js_le_def)
  have f: "periodsPerYear_lookup ''monthly'' = Some (Num 12)"
    by (simp add: periodsPerYear_lookup_def)
  have n: "totalPeriods_of binary64 ?fd (Num 12) = Num 12"
    by (simp add: totalPeriods_of_def Number_js_examples binary64_values)
  have r: "periodicRate_of binary64 ?fd (Num 12) = Num 0"
    by (simp add: periodicRate_of_def Number_js_examples binary64_values)
  have m: "emi_of binary64 ?fd (Num 12) = NaN"
    by (simp add: emi_of_def r n Number_js_examples js_sub_def real_pow_def binary64_values)
  show ?thesis
    using schedule_filled_in[OF v f n, where g = g and d = d]
    by (simp add: r m Number_js_examples)
qed

text \<open>
  C1 (the code departs from the specification). Specified: at an annual rate of 0 the
  engine takes the payment to be principal / totalPeriods, so that principal 12000,
  rate 0, one year, monthly gives 12 periods of payment 1000, interest 0 and principal
  component 1000. The code has no such case. On this form, which the change effect does
  pass on to \<open>calculateSchedule\<close> and which validates, the one formula for the payment
  divides 0 by 0: all 12 payments are NaN, the first interest is 0, and the principal
  components and every later interest are NaN.
\<close>

theorem C1_zero_rate_payment_is_NaN:
  "effect binary64 (filled_in (Date 2024 0 1) ''12000'' ''1'' ''0'' ''monthly'' ''0'')
     = calculateSchedule binary64 (filled_in (Date 2024 0 1) ''12000'' ''1'' ''0'' ''monthly'' ''0'')
   \<and> map_option (\<lambda>s. map (\<lambda>row. (payment row, interest row, row_principal row)) (schedule s))
        (calculateSchedule binary64 (filled_in (Date 2024 0 1) ''12000'' ''1'' ''0'' ''monthly'' ''0''))
     = Some ((NaN, Num 0, NaN) # replicate 11 (NaN, NaN, NaN))"
proof -
  let ?st = "filled_in (Date 2024 0 1) ''12000'' ''1'' ''0'' ''monthly'' ''0''"
  have e: "effect binary64 ?st = calculateSchedule binary64 ?st"
    by (simp add: effect_def filled_in_def)
  have "map (\<lambda>row. (payment row, interest row, row_principal row))
          (rows binary64 12 (Num 0) NaN ''monthly'' (Num 12000) dd)
        = (NaN, Num 0, NaN) # replicate 11 (NaN, NaN, NaN)" for dd
    by (simp add: eval_nat_numeral next_balance_def js_sub_def binary64_values)
  then show ?thesis
    using e zero_rate_run[where d = "Date 2024 0 1" and
        g = "map (\<lambda>row. (payment row, interest row, row_principal row))"]
    by simp
qed

text \<open>
  C7 (the code departs from the specification, by the defect of C1). Specified: in every
  schedule from validated input the balance after each period is never negative and
  never above the balance before it. On the zero-rate form every balance is NaN, which
  is neither \<open>>= 0\<close> nor \<open><=\<close> the NaN before it.
\<close>

theorem C7_zero_rate_balance_is_NaN:
  "map_option (\<lambda>s. map balance (schedule s))
     (calculateSchedule binary64 (filled_in (Date 2024 0 1) ''12000'' ''1'' ''0'' ''monthly'' ''0''))
     = Some (replicate 12 NaN)
   \<and> \<not> js_le (Num 0) NaN \<and> \<not> js_le NaN NaN
   \<and> map_option (\<lambda>s. (non_increasing (map balance (schedule s)),
                        list_all (js_le (Num 0)) (map balance (schedule s))))
        (calculateSchedule binary64 (filled_in (Date 2024 0 1) ''12000'' ''1'' ''0'' ''monthly'' ''0''))
     = Some (False, False)"
proof -
  have b: "map balance (rows binary64 12 (Num 0) NaN ''monthly'' (Num 12000) dd) = replicate 12 NaN" for dd
    by (simp add: eval_nat_numeral next_balance_def js_sub_def js_max_def binary64_values)
  have p: "\<not> non_increasing (replicate 12 NaN)" "\<not> list_all (js_le (Num 0)) (replicate 12 NaN)"
    by (simp_all add: eval_nat_numeral js_le_def)
  show ?thesis
    using zero_rate_run[where g = "map balance" and d = "Date 2024 0 1"]
      zero_rate_run[where g = "\<lambda>rs. (non_increasing (map balance rs),
                        list_all (js_le (Num 0)) (map balance rs))" and d = "Date 2024 0 1"]
    by (simp add: b p js_le_def)
qed

text \<open>
  C8 (the code departs from the specification, by the defect of C1). Specified: in every
  row of a schedule from validated input, interest plus principal component equals the
  payment, and the payment is the same in every row. On the zero-rate form the sum and
  the payment are NaN in each of the twelve rows, and NaN equals nothing, itself
  included.
\<close>

theorem C8_zero_rate_parts_do_not_add_up:
  "map_option (\<lambda>s. map (\<lambda>row. (js_add binary64 (interest row) (row_principal row), payment row,
                               js_eq (js_add binary64 (interest row) (row_principal row)) (payment row)))
                     (schedule s))
     (calculateSchedule binary64 (filled_in (Date 2024 0 1) ''12000'' ''1'' ''0'' ''monthly'' ''0''))
   = Some (replicate 12 (NaN, NaN, False))"
proof -
  have "map (\<lambda>row. (js_add binary64 (interest row) (row_principal row), payment row,
                               js_eq (js_add binary64 (interest row) (row_principal row)) (payment row)))
          (rows binary64 12 (Num 0) NaN ''monthly'' (Num 12000) dd) = replicate 12 (NaN, NaN, False)" for dd
    by (simp add: eval_nat_numeral next_balance_def js_sub_def js_eq_def binary64_values)
  then show ?thesis
    using zero_rate_run[where d = "Date 2024 0 1" and
        g = "map (\<lambda>row. (js_add binary64 (interest row) (row_principal row), payment row,
                               js_eq (js_add binary64 (interest row) (row_principal row)) (payment row)))"]
    by simp
qed

section \<open>The number of periods\<close>

text \<open>
  C2 (amended). Specified: for every validated input with a frequency of the four, the
  schedule has exactly tenureYears times periodsPerYear periods. The product need not be
  whole, and the loop runs while its counter is below it. What holds, in the binary64
  arithmetic of the program: for every state with a start date, a form that validates
  and a frequency of the four, when the tenure converts to a finite number and the
  product that the program computes from it, rounded as the multiplication rounds it,
  is a finite number of at most \<open>2^32 - 1\<close> (the most rows an array holds),
  \<open>calculateSchedule\<close> returns, and the number of rows is that computed product rounded
  up to a whole number. It is the product of the converted tenure and the periods per
  year whenever that product is whole.
\<close>

theorem C2_period_count:
  assumes "date st = Some d"
    and "fst (validateForm binary64 (formData st) st)"
    and "(frequency (formData st), ppy) \<in>
           {(''monthly'', 12), (''quarterly'', 4), (''semi-annually'', 2), (''annually'', 1)}"
    and "Number_js binary64 (tenure (formData st)) = Num t"
    and "binary64 (t * ppy) = Num n"
    and "n \<le> 4294967295"
  shows "\<exists>st'. calculateSchedule binary64 st = Some st'
           \<and> int (length (schedule st')) = \<lceil>n\<rceil>
           \<and> (\<forall>k. t * ppy = real k \<longrightarrow> length (schedule st') = k)"
proof -
  have v: "keys_length (newErrors binary64 (formData st)) = 0"
    using assms(2) by (simp add: validated_keys)
  have f: "periodsPerYear_lookup (frequency (formData st)) = Some (Num ppy)" and ppy: "0 < ppy"
    using lookup_known[OF assms(3)] by simp_all
  have n: "totalPeriods_of binary64 (formData st) (Num ppy) = Num n"
    by (simp add: totalPeriods_of_def assms(4) assms(5))
  have "0 \<le> t * ppy"
    using validated_tenure[OF v assms(4)] ppy by simp
  then have pos: "0 \<le> n"
    using assms(5) by (rule binary64_nonneg)
  let ?st' = "st\<lparr>schedule :=
                      rows binary64 (nat \<lceil>n\<rceil>) (periodicRate_of binary64 (formData st) (Num ppy))
                        (emi_of binary64 (formData st) (Num ppy)) (frequency (formData st))
                        (Number_js binary64 (principal (formData st)))
                        (first_date binary64 (formData st) d),
                    loading := False, errors := newErrors binary64 (formData st)\<rparr>"
  have l: "length (schedule ?st') = nat \<lceil>n\<rceil>"
    by (simp add: length_rows)
  have c: "int (length (schedule ?st')) = \<lceil>n\<rceil>"
    unfolding l using pos by simp
  have w: "\<forall>k. t * ppy = real k \<longrightarrow> length (schedule ?st') = k"
  proof (intro allI impI)
    fix k
    assume "t * ppy = real k"
    then have "binary64 (real k) = Num n"
      using assms(5) by simp
    then have "n = real k"
      using assms(6) by (rule binary64_whole_small)
    then show "length (schedule ?st') = k"
      unfolding l by simp
  qed
  show ?thesis
    using calculateSchedule_rows[OF v assms(1) f n] c w by blast
qed

text \<open>Principal 1000, one year, 12 percent, monthly: twelve rows.\<close>

theorem C2_period_count_witness:
  "date (filled_in (Date 2024 0 1) ''1000'' ''1'' ''12'' ''monthly'' ''0'') = Some (Date 2024 0 1)
   \<and> fst (validateForm binary64
            (formData (filled_in (Date 2024 0 1) ''1000'' ''1'' ''12'' ''monthly'' ''0''))
            (filled_in (Date 2024 0 1) ''1000'' ''1'' ''12'' ''monthly'' ''0''))
   \<and> Number_js binary64
        (tenure (formData (filled_in (Date 2024 0 1) ''1000'' ''1'' ''12'' ''monthly'' ''0'')))
       = Num 1
   \<and> binary64 (1 * 12) = Num 12
   \<and> (\<exists>st'. calculateSchedule binary64
                (filled_in (Date 2024 0 1) ''1000'' ''1'' ''12'' ''monthly'' ''0'')
               = Some st' \<and> length (schedule st') = 12)"
proof -
  let ?st = "filled_in (Date 2024 0 1) ''1000'' ''1'' ''12'' ''monthly'' ''0''"
  have d: "date ?st = Some (Date 2024 0 1)"
    by (simp add: filled_in_def)
  have v: "fst (validateForm binary64 (formData ?st) ?st)"
    by (simp add: validateForm_def filled_in_def keys_length_def newErrors_def
        Number_js_examples js_le_def)
  have f: "(frequency (formData ?st), 12) \<in>
           {(''monthly'', 12), (''quarterly'', 4), (''semi-annually'', 2), (''annually'', 1 :: real)}"
    by (simp add: filled_in_def)
  have t: "Number_js binary64 (tenure (formData ?st)) = Num 1"
    by (simp add: filled_in_def Number_js_examples)
  have n: "binary64 (1 * 12) = Num 12"
    by (simp add: binary64_values)
  have b: "(12 :: real) \<le> 4294967295"
    by simp
  from C2_period_count[OF d v f t n b]
  obtain st' where s: "calculateSchedule binary64 ?st = Some st'"
    and l: "\<forall>k. 1 * 12 = real k \<longrightarrow> length (schedule st') = k"
    by blast
  have "(1 :: real) * 12 = real 12"
    by simp
  with l have "length (schedule st') = 12"
    by blast
  with s have "\<exists>st'. calculateSchedule binary64 ?st = Some st' \<and> length (schedule st') = 12"
    by blast
  with d v t n show ?thesis
    by (intro conjI)
qed

text \<open>
  A tenure of 1.5 years with annual payments: the product is 1.5, and the schedule has
  two rows.
\<close>

theorem C2_fractional_count_is_rounded_up:
  "js_mul binary64 (Number_js binary64 ''1.5'') (Num 1) = Num (3 / 2)
   \<and> map_option (\<lambda>s. length (schedule s))
        (calculateSchedule binary64
           (filled_in (Date 2024 0 1) ''1000'' ''1.5'' ''12'' ''annually'' ''0''))
     = Some 2"
proof -
  let ?fd = "\<lparr>principal = ''1000'', tenure = ''1.5'', rate = ''12'',
      frequency = ''annually'', moratorium = ''0''\<rparr>"
  have v: "keys_length (newErrors binary64 ?fd) = 0"
    by (simp add: keys_length_def newErrors_def Number_js_examples Number_js_1_5 js_le_def)
  have n: "totalPeriods_of binary64 ?fd (Num 1) = Num (3 / 2)"
    by (simp add: totalPeriods_of_def Number_js_1_5 binary64_3_2)
  have c: "nat \<lceil>3 / 2 :: real\<rceil> = 2"
    by simp
  have "map_option (\<lambda>s. length (schedule s))
        (calculateSchedule binary64
           (filled_in (Date 2024 0 1) ''1000'' ''1.5'' ''12'' ''annually'' ''0''))
     = Some 2"
    unfolding schedule_filled_in[OF v lookup_annually n, where g = length and d = "Date 2024 0 1"]
      length_rows c
    by (rule refl)
  moreover have "js_mul binary64 (Number_js binary64 ''1.5'') (Num 1) = Num (3 / 2)"
    by (simp add: Number_js_1_5 binary64_3_2)
  ultimately show ?thesis
    by (rule conjI[rotated])
qed

text \<open>
  The count follows the converted tenure, not the digits typed: the text
  \<open>1.0000000000000001\<close> converts to 1, the nearest number of the format, and a
  monthly schedule from it has twelve rows.
\<close>

lemma Number_js_just_above_1: "Number_js binary64 ''1.0000000000000001'' = Num 1"
proof -
  define x :: real where "x = 1 + 1 / 10 ^ 16"
  have h: "(2 :: real) powr of_int (0 - 52) = 1 / 2 ^ 52"
    by (simp add: powr_minus_divide powr_realpow)
  have lo: "2 powr of_int 0 \<le> x"
    by (simp add: x_def)
  have hi: "x < 2 powr of_int (0 + 1)"
    by (simp add: x_def)
  have m: "\<bar>x / 2 powr of_int (0 - 52) - of_int (2 ^ 52)\<bar> < 1 / 2"
    unfolding h by (simp add: x_def)
  have r: "of_int (2 ^ 52) * 2 powr of_int (0 - 52) < (2 :: real) ^ 1024"
    unfolding h by simp
  have "binary64_pos x = Num (of_int (2 ^ 52) * 2 powr of_int (0 - 52))"
    using lo hi _ m r by (rule binary64_pos_near) simp
  then have "binary64_pos x = Num 1"
    unfolding h by simp
  moreover have "0 < x"
    by (simp add: x_def)
  ultimately have "binary64 x = Num 1"
    by (simp add: binary64_def)
  moreover have "Number_js binary64 ''1.0000000000000001'' = binary64 x"
    by (simp add: number_defs x_def)
  ultimately show ?thesis
    by simp
qed

lemma just_above_one_year_has_twelve_rows:
  "map_option (\<lambda>s. length (schedule s))
     (calculateSchedule binary64
        (filled_in (Date 2024 0 1) ''1000'' ''1.0000000000000001'' ''12'' ''monthly'' ''0''))
   = Some 12"
proof -
  let ?fd = "\<lparr>principal = ''1000'', tenure = ''1.0000000000000001'', rate = ''12'',
      frequency = ''monthly'', moratorium = ''0''\<rparr>"
  have v: "keys_length (newErrors binary64 ?fd) = 0"
    by (simp add: keys_length_def newErrors_def Number_js_examples Number_js_just_above_1
        js_le_def)
  have n: "totalPeriods_of binary64 ?fd (Num 12) = Num 12"
    by (simp add: totalPeriods_of_def Number_js_just_above_1 binary64_values)
  have c: "nat \<lceil>12 :: real\<rceil> = 12"
    by simp
  show ?thesis
    unfolding schedule_filled_in[OF v lookup_monthly n, where g = length and d = "Date 2024 0 1"]
      length_rows c
    by (rule refl)
qed

text \<open>
  A tenure too large for the format converts to Infinity, which validates; the bound of
  the loop is then infinite and the loop does not end.
\<close>

lemma binary64_pos_below_limit: "binary64_pos x = Num r \<Longrightarrow> r < 2 ^ 1024"
  unfolding binary64_pos_def Let_def by (simp split: if_splits)

lemma Number_js_1e400: "Number_js binary64 ''1e400'' = PInf"
proof -
  have "(2 :: real) ^ 1024 \<le> 10 ^ 400"
    by simp
  then have x: "(2 :: real) powr of_int (int 1024) \<le> 10 ^ 400"
    by (simp only: two_powr_nat)
  have "binary64_pos (10 ^ 400) = PInf
      \<or> (\<exists>r. binary64_pos (10 ^ 400) = Num r \<and> 2 powr of_int (int 1024) \<le> r)"
    using _ x by (rule binary64_pos_at_least) simp
  then have "binary64_pos (10 ^ 400) = PInf"
  proof
    assume "\<exists>r. binary64_pos (10 ^ 400) = Num r \<and> 2 powr of_int (int 1024) \<le> r"
    then obtain r where r: "binary64_pos (10 ^ 400) = Num r"
      and le: "(2 :: real) powr of_int (int 1024) \<le> r"
      by blast
    from le have "(2 :: real) ^ 1024 \<le> r"
      by (simp only: two_powr_nat)
    with binary64_pos_below_limit[OF r] show ?thesis
      by simp
  qed
  then have "binary64 (10 ^ 400) = PInf"
    by (simp add: binary64_def)
  then show ?thesis
    by (simp add: number_defs)
qed

lemma overflowing_tenure_does_not_return:
  "fst (validateForm binary64
          \<lparr>principal = ''1000'', tenure = ''1e400'', rate = ''12'', frequency = ''monthly'',
           moratorium = ''0''\<rparr> st)
   \<and> calculateSchedule binary64
        (filled_in (Date 2024 0 1) ''1000'' ''1e400'' ''12'' ''monthly'' ''0'') = None"
  by (simp add: calculateSchedule_def validateForm_def filled_in_def keys_length_def
      newErrors_def Number_js_examples Number_js_1e400 js_le_def lookup_monthly
      schedule_loop_PInf)

text \<open>
  The product is rounded as the multiplication rounds it: the text
  \<open>0.08333333333333334\<close> converts to the binary64 number just above one twelfth, its
  product with 12 is \<open>1 + 2^(-53)\<close>, half-way between 1 and the next number of the
  format, and rounds to 1. The monthly schedule has one row.
\<close>

lemma Number_js_twelfth:
  "Number_js binary64 ''0.08333333333333334'' = Num (6004799503160662 / 2 ^ 56)"
proof -
  define x :: real where "x = 8333333333333334 / 10 ^ 17"
  have h: "(2 :: real) powr of_int (- 4 - 52) = 1 / 2 ^ 56"
    by (simp add: powr_minus_divide powr_realpow)
  have h4: "(2 :: real) powr of_int (- 4) = 1 / 2 ^ 4"
    by (simp add: powr_minus_divide powr_realpow)
  have h3: "(2 :: real) powr of_int (- 4 + 1) = 1 / 2 ^ 3"
    by (simp add: powr_minus_divide powr_realpow)
  have lo: "2 powr of_int (- 4) \<le> x"
    unfolding h4 by (simp add: x_def)
  have hi: "x < 2 powr of_int (- 4 + 1)"
    unfolding h3 by (simp add: x_def)
  have m: "\<bar>x / 2 powr of_int (- 4 - 52) - of_int 6004799503160662\<bar> < 1 / 2"
    unfolding h by (simp add: x_def)
  have r: "of_int 6004799503160662 * 2 powr of_int (- 4 - 52) < (2 :: real) ^ 1024"
    unfolding h by simp
  have "binary64_pos x = Num (of_int 6004799503160662 * 2 powr of_int (- 4 - 52))"
    using lo hi _ m r by (rule binary64_pos_near) simp
  then have "binary64_pos x = Num (6004799503160662 / 2 ^ 56)"
    unfolding h by simp
  moreover have "0 < x"
    by (simp add: x_def)
  ultimately have "binary64 x = Num (6004799503160662 / 2 ^ 56)"
    by (simp add: binary64_def)
  moreover have "Number_js binary64 ''0.08333333333333334'' = binary64 x"
    by (simp add: number_defs x_def)
  ultimately show ?thesis
    by simp
qed

lemma twelfth_times_12: "binary64 (6004799503160662 / 2 ^ 56 * 12) = Num 1"
proof -
  define x :: real where "x = 6004799503160662 / 2 ^ 56 * 12"
  have h: "(2 :: real) powr of_int (0 - 52) = 1 / 2 ^ 52"
    by (simp add: powr_minus_divide powr_realpow)
  have lo: "2 powr of_int 0 \<le> x"
    by (simp add: x_def)
  have hi: "x < 2 powr of_int (0 + 1)"
    by (simp add: x_def)
  have m: "x / 2 powr of_int (0 - 52) = of_int (2 ^ 52) + 1 / 2"
    unfolding h by (simp add: x_def)
  have r: "of_int (2 ^ 52) * 2 powr of_int (0 - 52) < (2 :: real) ^ 1024"
    unfolding h by simp
  have "binary64_pos x = Num (of_int (2 ^ 52) * 2 powr of_int (0 - 52))"
    using lo hi _ m _ r by (rule binary64_pos_tie_even) simp_all
  then have "binary64_pos x = Num 1"
    unfolding h by simp
  moreover have "0 < x"
    by (simp add: x_def)
  ultimately show ?thesis
    by (simp add: binary64_def x_def)
qed

lemma a_twelfth_of_a_year_has_one_row:
  "map_option (\<lambda>s. length (schedule s))
     (calculateSchedule binary64
        (filled_in (Date 2024 0 1) ''1000'' ''0.08333333333333334'' ''12'' ''monthly'' ''0''))
   = Some 1"
proof -
  let ?fd = "\<lparr>principal = ''1000'', tenure = ''0.08333333333333334'', rate = ''12'',
      frequency = ''monthly'', moratorium = ''0''\<rparr>"
  have v: "keys_length (newErrors binary64 ?fd) = 0"
    by (simp add: keys_length_def newErrors_def Number_js_examples Number_js_twelfth js_le_def)
  have n: "totalPeriods_of binary64 ?fd (Num 12) = Num 1"
    by (simp only: totalPeriods_of_def FormData.simps Number_js_twelfth js_mul.simps
        twelfth_times_12)
  have c: "nat \<lceil>1 :: real\<rceil> = 1"
    by simp
  show ?thesis
    unfolding schedule_filled_in[OF v lookup_monthly n, where g = length and d = "Date 2024 0 1"]
      length_rows c
    by (rule refl)
qed

section \<open>A frequency outside the four\<close>

text \<open>
  C9 (amended). Specified: given a frequency outside monthly, quarterly, semi-annually
  and annually, the engine fails fast with an error instead of silently producing no
  result. The code guards the lookup with a plain \<open>return\<close>. What holds: for every
  state whose frequency is outside the four, \<open>calculateSchedule\<close> returns normally,
  the messages it leaves are those of the validation alone, and it emits no period: the
  schedule on display stays as it was, except that a name inherited from
  \<open>Object.prototype\<close> can pass the guard, and then the schedule becomes empty.
\<close>

theorem C9_unknown_frequency_returns_silently:
  assumes "frequency (formData st) \<notin> {''monthly'', ''quarterly'', ''semi-annually'', ''annually''}"
  shows "\<exists>st'. calculateSchedule binary64 st = Some st'
           \<and> errors st' = errors (snd (validateForm binary64 (formData st) st))
           \<and> (schedule st' = schedule st \<or> schedule st' = [])
           \<and> (frequency (formData st) \<notin> set object_prototype_names
                \<longrightarrow> schedule st' = schedule st)"
proof (cases "periodsPerYear_lookup (frequency (formData st))")
  case None
  then have "frequency (formData st) \<notin> set object_prototype_names"
    by (auto simp: periodsPerYear_lookup_def split: if_splits)
  with None show ?thesis
    by (simp add: calculateSchedule_def validateForm_def Let_def split: option.splits)
next
  case (Some ppy)
  with assms have ppy: "ppy = NaN"
    by (auto simp: periodsPerYear_lookup_def split: if_splits)
  from Some assms have mem: "frequency (formData st) \<in> set object_prototype_names"
    by (auto simp: periodsPerYear_lookup_def split: if_splits)
  have "js_mul binary64 x NaN = NaN" for x
    by (cases x) simp_all
  with Some ppy mem show ?thesis
    by (simp add: calculateSchedule_def validateForm_def Let_def schedule_loop_NaN
        split: option.splits)
qed

text \<open>
  The frequency \<open>weekly\<close>, with one row on display from before: the row is still there
  afterwards, and there is no message.
\<close>

theorem C9_unknown_frequency_returns_silently_witness:
  "''weekly'' \<notin> {''monthly'', ''quarterly'', ''semi-annually'', ''annually''}
   \<and> ''weekly'' \<notin> set object_prototype_names
   \<and> (\<exists>st'. calculateSchedule binary64
          ((filled_in (Date 2024 0 1) ''1000'' ''1'' ''12'' ''weekly'' ''0'')
             \<lparr>schedule := [\<lparr>row_date = Date 2023 0 1, payment = Num 1, interest = Num 0,
                             row_principal = Num 1, balance = Num 0\<rparr>]\<rparr>) = Some st'
        \<and> errors st' = no_errors
        \<and> schedule st' = [\<lparr>row_date = Date 2023 0 1, payment = Num 1, interest = Num 0,
                             row_principal = Num 1, balance = Num 0\<rparr>])"
proof -
  let ?row = "\<lparr>row_date = Date 2023 0 1, payment = Num 1, interest = Num 0,
                             row_principal = Num 1, balance = Num 0\<rparr>"
  let ?st = "(filled_in (Date 2024 0 1) ''1000'' ''1'' ''12'' ''weekly'' ''0'')
             \<lparr>schedule := [?row]\<rparr>"
  have f: "frequency (formData ?st) = ''weekly''"
    by (simp add: filled_in_def)
  have a: "''weekly'' \<notin> {''monthly'', ''quarterly'', ''semi-annually'', ''annually''}"
    by simp
  have b: "''weekly'' \<notin> set object_prototype_names"
    by (simp add: object_prototype_names_def)
  have e: "errors (snd (validateForm binary64 (formData ?st) ?st)) = no_errors"
    by (simp add: validateForm_def filled_in_def newErrors_def no_errors_def
        Number_js_examples js_le_def)
  have s: "schedule ?st = [?row]"
    by simp
  from C9_unknown_frequency_returns_silently[of ?st, unfolded f, OF a]
  obtain st' where H: "calculateSchedule binary64 ?st = Some st'
           \<and> errors st' = errors (snd (validateForm binary64 (formData ?st) ?st))
           \<and> (schedule st' = schedule ?st \<or> schedule st' = [])
           \<and> (''weekly'' \<notin> set object_prototype_names \<longrightarrow> schedule st' = schedule ?st)" ..
  have 1: "calculateSchedule binary64 ?st = Some st'"
    using H by (rule conjunct1)
  have 2: "errors st' = no_errors"
    using conjunct1[OF conjunct2[OF H]] e by (rule trans)
  have 3: "schedule st' = [?row]"
    using mp[OF conjunct2[OF conjunct2[OF conjunct2[OF H]]] b] s by (rule trans)
  have "\<exists>st'. calculateSchedule binary64 ?st = Some st' \<and> errors st' = no_errors
      \<and> schedule st' = [?row]"
    using 1 2 3 by (intro exI[of _ st'] conjI)
  with a b show ?thesis
    by (intro conjI)
qed

text \<open>
  The frequency \<open>weekly\<close> on a filled-in form with a date: \<open>calculateSchedule\<close>
  returns the state it was given, in which there is no message and no schedule.
\<close>

theorem C9_weekly_returns_the_same_state:
  "calculateSchedule binary64 (filled_in (Date 2024 0 1) ''1000'' ''1'' ''12'' ''weekly'' ''0'')
     = Some (filled_in (Date 2024 0 1) ''1000'' ''1'' ''12'' ''weekly'' ''0'')
   \<and> errors (filled_in (Date 2024 0 1) ''1000'' ''1'' ''12'' ''weekly'' ''0'') = no_errors
   \<and> schedule (filled_in (Date 2024 0 1) ''1000'' ''1'' ''12'' ''weekly'' ''0'') = []"
  by (simp add: calculateSchedule_def validateForm_def filled_in_def keys_length_def
      newErrors_def Number_js_examples js_le_def periodsPerYear_lookup_def
      object_prototype_names_def no_errors_def)

text \<open>
  The inherited name \<open>toString\<close> passes the guard: the row on display from before is
  replaced by an empty schedule.
\<close>

lemma toString_frequency_empties_the_schedule:
  "map_option schedule
     (calculateSchedule binary64
        ((filled_in (Date 2024 0 1) ''1000'' ''1'' ''12'' ''toString'' ''0'')
           \<lparr>schedule := [\<lparr>row_date = Date 2023 0 1, payment = Num 1, interest = Num 0,
                           row_principal = Num 1, balance = Num 0\<rparr>]\<rparr>))
   = Some []"
  by (simp add: calculateSchedule_def validateForm_def filled_in_def keys_length_def
      newErrors_def Number_js_examples js_le_def periodsPerYear_lookup_def
      object_prototype_names_def schedule_loop_NaN)

section \<open>Dates\<close>

lemmas calendar_defs = MakeDay_def ToInteger_def DaysInMonth_def leap_year_def day_number_def
  DayFromYear_def DaysBeforeMonth_def

lemmas date_defs = calendar_defs next_date_def first_date_def

text \<open>
  C3 (the code departs from the specification). Specified: the dates of a schedule go
  up by the period length of the frequency with calendar-safe month addition, so that
  a date such as Jan 31 moved by one month does not run over into a later month. The
  code moves the date with \<open>setMonth(getMonth() + 1)\<close>, which keeps the day of the
  month: from 31 January 2024 (month 0) the second date of a monthly schedule is
  2 March 2024 (month 2), February has no payment, and every later date is on the 2nd.
\<close>

theorem C3_month_end_overflows:
  "map_option (\<lambda>s. map row_date (schedule s))
     (calculateSchedule binary64 (filled_in (Date 2024 0 31) ''1000'' ''1'' ''12'' ''monthly'' ''0''))
   = Some [Date 2024 0 31, Date 2024 2 2, Date 2024 3 2, Date 2024 4 2, Date 2024 5 2,
           Date 2024 6 2, Date 2024 7 2, Date 2024 8 2, Date 2024 9 2, Date 2024 10 2,
           Date 2024 11 2, Date 2025 0 2]"
proof -
  let ?fd = "\<lparr>principal = ''1000'', tenure = ''1'', rate = ''12'',
      frequency = ''monthly'', moratorium = ''0''\<rparr>"
  have v: "keys_length (newErrors binary64 ?fd) = 0"
    by (simp add: keys_length_def newErrors_def Number_js_examples js_le_def)
  have n: "totalPeriods_of binary64 ?fd (Num 12) = Num 12"
    by (simp add: totalPeriods_of_def Number_js_examples binary64_values)
  have s: "first_date binary64 ?fd (Date 2024 0 31) = Date 2024 0 31"
    by (simp add: date_defs Number_js_examples binary64_values)
  have "date_seq binary64 12 ''monthly'' (Date 2024 0 31) =
          [Date 2024 0 31, Date 2024 2 2, Date 2024 3 2, Date 2024 4 2, Date 2024 5 2,
           Date 2024 6 2, Date 2024 7 2, Date 2024 8 2, Date 2024 9 2, Date 2024 10 2,
           Date 2024 11 2, Date 2025 0 2]"
    by (simp add: eval_nat_numeral date_defs binary64_values)
  then show ?thesis
    using schedule_filled_in[OF v lookup_monthly n, where g = "map row_date"
        and d = "Date 2024 0 31"]
    by (simp add: row_date_rows s)
qed

text \<open>
  The dates of a schedule when the day of the month is at most 28, so that no date runs
  over the end of a month, and every date stays within the range of \<open>Date\<close>: the loop
  then moves the date by whole months, and the month numbers it computes are exact.
\<close>

lemma Number_js_2: "Number_js binary64 ''2'' = Num 2"
  by (simp add: number_defs binary64_values)

lemma Number_js_3: "Number_js binary64 ''3'' = Num 3"
  by (simp add: number_defs binary64_values)

lemma DaysInMonth_ge_28: "28 \<le> DaysInMonth y m"
  by (simp add: DaysInMonth_def)

lemma DaysInMonth_le_31: "DaysInMonth y m \<le> 31"
  by (simp add: DaysInMonth_def)

lemma days_before_bounds:
  "0 \<le> sum_list (map (\<lambda>k. DaysInMonth y (int k)) [0..<n])
   \<and> sum_list (map (\<lambda>k. DaysInMonth y (int k)) [0..<n]) \<le> 31 * int n"
proof (induction n)
  case 0
  show ?case by simp
next
  case (Suc n)
  from Suc DaysInMonth_ge_28[of y "int n"] DaysInMonth_le_31[of y "int n"] show ?case
    by simp
qed

lemma DaysBeforeMonth_bounds:
  assumes "0 \<le> m" and "m < 12"
  shows "0 \<le> DaysBeforeMonth y m" and "DaysBeforeMonth y m \<le> 341"
proof -
  have n: "int (nat m) \<le> 11"
    using assms by simp
  from days_before_bounds[of y "nat m"] show "0 \<le> DaysBeforeMonth y m"
    by (simp add: DaysBeforeMonth_def)
  from days_before_bounds[of y "nat m"] n show "DaysBeforeMonth y m \<le> 341"
    unfolding DaysBeforeMonth_def by linarith
qed

lemma year_bound:
  assumes "0 \<le> mn" and "mn < 12" and "1 \<le> dt" and "dt \<le> 31"
    and "\<bar>day_number y mn dt\<bar> \<le> 100000000"
  shows "\<bar>y\<bar> \<le> 300000"
proof -
  define a where "a = (y - 1969) div 4"
  define b where "b = (y - 1901) div 100"
  define c where "c = (y - 1601) div 400"
  define ra where "ra = (y - 1969) mod 4"
  define rb where "rb = (y - 1901) mod 100"
  define rc where "rc = (y - 1601) mod 400"
  have a: "y - 1969 = 4 * a + ra" "0 \<le> ra" "ra < 4"
    by (simp_all add: a_def ra_def)
  have b: "y - 1901 = 100 * b + rb" "0 \<le> rb" "rb < 100"
    by (simp_all add: b_def rb_def)
  have c: "y - 1601 = 400 * c + rc" "0 \<le> rc" "rc < 400"
    by (simp_all add: c_def rc_def)
  note m = DaysBeforeMonth_bounds[OF assms(1,2), of y]
  have "day_number y mn dt = 365 * y - 719050 + a - b + c + DaysBeforeMonth y mn + dt - 1"
    by (simp add: day_number_def DayFromYear_def a_def b_def c_def)
  with assms(5)
  have "\<bar>365 * y - 719050 + a - b + c + DaysBeforeMonth y mn + dt - 1\<bar> \<le> 100000000"
    by simp
  then have "- 100000000 \<le> 365 * y - 719050 + a - b + c + DaysBeforeMonth y mn + dt - 1"
    and "365 * y - 719050 + a - b + c + DaysBeforeMonth y mn + dt - 1 \<le> 100000000"
    by linarith+
  then have "- 300000 \<le> y" and "y \<le> 300000"
    using a b c m assms(3,4) by linarith+
  then show ?thesis
    by linarith
qed

lemma MakeDay_le_28:
  "dd \<le> 28 \<Longrightarrow> MakeDay y m dd =
     (if 100000000 < \<bar>day_number (y + m div 12) (m mod 12) dd\<bar> then InvalidDate
      else Date (y + m div 12) (m mod 12) dd)"
  using DaysInMonth_ge_28[of "y + m div 12" "m mod 12"] by (simp add: MakeDay_def Let_def)

lemma MakeDay_far:
  assumes "1 \<le> dd" and "dd \<le> 31" and "300000 < \<bar>y + M div 12\<bar>"
  shows "MakeDay y M dd = InvalidDate"
proof -
  have "100000000 < \<bar>day_number (y + M div 12) (M mod 12) dd\<bar>"
  proof (rule ccontr)
    assume "\<not> 100000000 < \<bar>day_number (y + M div 12) (M mod 12) dd\<bar>"
    then have "\<bar>day_number (y + M div 12) (M mod 12) dd\<bar> \<le> 100000000"
      by simp
    with year_bound[of "M mod 12" dd "y + M div 12"] assms show False
      by simp
  qed
  then show ?thesis
    by (simp add: MakeDay_def Let_def)
qed

lemma ToInteger_of_int: "ToInteger (of_int k) = k"
  by (simp add: ToInteger_def)

lemma setMonth_whole:
  assumes "\<bar>m + k\<bar> < 2 ^ 53"
  shows "setMonth (Date y m dd) (js_add binary64 (getMonth (Date y m dd)) (Num (of_int k)))
           = MakeDay y (m + k) dd"
proof -
  have "js_add binary64 (Num (of_int m)) (Num (of_int k)) = binary64 (of_int (m + k))"
    by simp
  also have "\<dots> = Num (of_int (m + k))"
    using assms by (rule binary64_of_int)
  finally show ?thesis
    by (simp only: getMonth.simps setMonth.simps ToInteger_of_int)
qed

lemma plus_months_le_28:
  "dd \<le> 28 \<Longrightarrow> plus_months (Date y m dd) k = Date (y + (m + k) div 12) ((m + k) mod 12) dd"
  using DaysInMonth_ge_28[of "y + (m + k) div 12" "(m + k) mod 12"] by simp

lemma plus_months_0:
  "0 \<le> m \<Longrightarrow> m < 12 \<Longrightarrow> dd \<le> 28 \<Longrightarrow> plus_months (Date y m dd) 0 = Date y m dd"
  by (simp add: plus_months_le_28 del: plus_months.simps)

lemma mod_12_shift: "((x::int) mod 12 + b) mod 12 = (x + b) mod 12"
  by (simp add: mod_add_left_eq)

lemma div_12_shift: "(x::int) div 12 + (x mod 12 + b) div 12 = (x + b) div 12"
proof -
  have "x + b = 12 * (x div 12) + (x mod 12 + b)"
    by simp
  then have "(x + b) div 12 = (12 * (x div 12) + (x mod 12 + b)) div 12"
    by (rule arg_cong)
  also have "\<dots> = x div 12 + (x mod 12 + b) div 12"
    by (rule div_mult_self4) simp
  finally show ?thesis by simp
qed

lemma plus_months_add:
  assumes "dd \<le> 28"
  shows "plus_months (plus_months (Date y m dd) a) b = plus_months (Date y m dd) (a + b)"
proof -
  have "plus_months (plus_months (Date y m dd) a) b
      = Date (y + (m + a) div 12 + ((m + a) mod 12 + b) div 12)
          (((m + a) mod 12 + b) mod 12) dd"
    by (simp only: plus_months_le_28[OF assms])
  also have "\<dots> = Date (y + ((m + a) div 12 + ((m + a) mod 12 + b) div 12))
          (((m + a) mod 12 + b) mod 12) dd"
    by (simp only: add.assoc)
  also have "\<dots> = Date (y + (m + a + b) div 12) ((m + a + b) mod 12) dd"
    by (simp only: div_12_shift mod_12_shift)
  also have "\<dots> = Date (y + (m + (a + b)) div 12) ((m + (a + b)) mod 12) dd"
    by (simp only: add.assoc)
  also have "\<dots> = plus_months (Date y m dd) (a + b)"
    by (simp only: plus_months_le_28[OF assms])
  finally show ?thesis .
qed

lemma valid_year:
  assumes "valid_date (Date y m dd)"
  shows "\<bar>y\<bar> \<le> 300000"
proof -
  from assms have "0 \<le> m" "m < 12" "1 \<le> dd" "dd \<le> DaysInMonth y m"
    "\<bar>day_number y m dd\<bar> \<le> 100000000"
    by simp_all
  moreover have "dd \<le> 31"
    using \<open>dd \<le> DaysInMonth y m\<close> DaysInMonth_le_31[of y m] by linarith
  ultimately show ?thesis
    using year_bound[of m dd y] by simp
qed

lemma MakeDay_plus_months:
  assumes "1 \<le> dd" and "dd \<le> 28" and "MakeDay y (m + a) dd \<noteq> InvalidDate"
  shows "MakeDay y (m + a) dd = plus_months (Date y m dd) a"
    and "valid_date (plus_months (Date y m dd) a)"
proof -
  have r: "\<not> 100000000 < \<bar>day_number (y + (m + a) div 12) ((m + a) mod 12) dd\<bar>"
    using assms(3) by (simp add: MakeDay_le_28[OF assms(2)] split: if_splits)
  then show "MakeDay y (m + a) dd = plus_months (Date y m dd) a"
    by (simp add: MakeDay_le_28[OF assms(2)] plus_months_le_28[OF assms(2)]
        del: plus_months.simps)
  have "dd \<le> DaysInMonth (y + (m + a) div 12) ((m + a) mod 12)"
    using DaysInMonth_ge_28[of "y + (m + a) div 12" "(m + a) mod 12"] assms(2) by linarith
  then show "valid_date (plus_months (Date y m dd) a)"
    using r assms(1) by (simp add: plus_months_le_28[OF assms(2)] del: plus_months.simps)
qed

lemma MakeDay_next_year: "MakeDay (y + 1) m dd = MakeDay y (m + 12) dd"
proof -
  have e: "y + (m div 12 + 1) = y + 1 + m div 12"
    by simp
  show ?thesis
    by (simp add: MakeDay_def e)
qed

lemma next_date_valid:
  assumes f: "f = ''monthly'' \<or> f = ''quarterly'' \<or> f = ''semi-annually'' \<or> f = ''annually''"
    and v: "valid_date (Date y m dd)"
  shows "next_date binary64 f (Date y m dd) = MakeDay y (m + period_months f) dd"
proof -
  have m: "0 \<le> m" "m < 12"
    using v by simp_all
  note y = valid_year[OF v]
  have a: "setMonth (Date y m dd) (js_add binary64 (getMonth (Date y m dd)) (Num (of_int k)))
      = MakeDay y (m + k) dd" if "0 \<le> k" "k \<le> 6" for k
    using m that by (intro setMonth_whole) simp
  have "js_add binary64 (Num (of_int y)) (Num 1) = binary64 (of_int (y + 1))"
    by simp
  also have "\<dots> = Num (of_int (y + 1))"
    using y by (intro binary64_of_int) simp
  finally have "setFullYear (Date y m dd) (js_add binary64 (getFullYear (Date y m dd)) (Num 1))
      = MakeDay (y + 1) m dd"
    by (simp only: getFullYear.simps setFullYear.simps ToInteger_of_int)
  then have yr: "setFullYear (Date y m dd) (js_add binary64 (getFullYear (Date y m dd)) (Num 1))
      = MakeDay y (m + 12) dd"
    by (simp only: MakeDay_next_year)
  from f show ?thesis
  proof (elim disjE)
    assume "f = ''monthly''"
    then show ?thesis
      using a[of 1] by (simp add: next_date_def period_months_def)
  next
    assume "f = ''quarterly''"
    then show ?thesis
      using a[of 3] by (simp add: next_date_def period_months_def)
  next
    assume "f = ''semi-annually''"
    then show ?thesis
      using a[of 6] by (simp add: next_date_def period_months_def)
  next
    assume "f = ''annually''"
    then show ?thesis
      using yr by (simp add: next_date_def period_months_def)
  qed
qed

lemma date_seq_valid:
  assumes f: "f = ''monthly'' \<or> f = ''quarterly'' \<or> f = ''semi-annually'' \<or> f = ''annually''"
    and "valid_date (Date y m dd)" and "dd \<le> 28"
    and "InvalidDate \<notin> set (date_seq binary64 n f (Date y m dd))"
  shows "date_seq binary64 n f (Date y m dd)
           = map (\<lambda>i. plus_months (Date y m dd) (period_months f * int i)) [0..<n]"
  using assms(2,4)
proof (induction n arbitrary: y m)
  case 0
  show ?case by simp
next
  case (Suc n)
  let ?p = "period_months f"
  let ?D = "Date y m dd"
  have m: "0 \<le> m" "m < 12" and d1: "1 \<le> dd"
    using Suc.prems(1) by simp_all
  have nd: "next_date binary64 f ?D = MakeDay y (m + ?p) dd"
    using f Suc.prems(1) by (rule next_date_valid)
  have tl: "InvalidDate \<notin> set (date_seq binary64 n f (MakeDay y (m + ?p) dd))"
    using Suc.prems(2) by (simp add: nd)
  have z: "plus_months ?D (?p * int 0) = ?D"
    using m assms(3) by (simp add: plus_months_0 del: plus_months.simps)
  have "date_seq binary64 n f (MakeDay y (m + ?p) dd)
          = map (\<lambda>i. plus_months ?D (?p * int (Suc i))) [0..<n]"
  proof (cases n)
    case 0
    then show ?thesis by simp
  next
    case (Suc n')
    have "MakeDay y (m + ?p) dd \<in> set (date_seq binary64 n f (MakeDay y (m + ?p) dd))"
      by (simp add: Suc)
    with tl have ok: "MakeDay y (m + ?p) dd \<noteq> InvalidDate"
      by metis
    note P = MakeDay_plus_months[OF d1 assms(3) ok]
    let ?y = "y + (m + ?p) div 12" and ?m = "(m + ?p) mod 12"
    have e: "plus_months ?D ?p = Date ?y ?m dd"
      by (rule plus_months_le_28[OF assms(3)])
    have v: "valid_date (Date ?y ?m dd)"
      using P(2)[unfolded e] .
    have t: "InvalidDate \<notin> set (date_seq binary64 n f (Date ?y ?m dd))"
      using tl[unfolded P(1) e] .
    have sh: "plus_months (Date ?y ?m dd) k = plus_months ?D (?p + k)" for k
      using plus_months_add[OF assms(3), of y m ?p k] by (simp only: e)
    have "date_seq binary64 n f (Date ?y ?m dd)
          = map (\<lambda>i. plus_months ?D (?p * int (Suc i))) [0..<n]"
      unfolding \<open>\<And>y m. \<lbrakk>valid_date (Date y m dd);
          InvalidDate \<notin> set (date_seq binary64 n f (Date y m dd))\<rbrakk>
        \<Longrightarrow> date_seq binary64 n f (Date y m dd)
           = map (\<lambda>i. plus_months (Date y m dd) (period_months f * int i)) [0..<n]\<close>[OF v t] sh
      by (simp add: algebra_simps)
    then show ?thesis
      by (simp only: P(1) e)
  qed
  then have "date_seq binary64 (Suc n) f ?D
      = ?D # map (\<lambda>i. plus_months ?D (?p * int (Suc i))) [0..<n]"
    by (simp add: nd)
  also have "\<dots> = plus_months ?D (?p * int 0)
      # map ((\<lambda>i. plus_months ?D (?p * int i)) \<circ> Suc) [0..<n]"
    by (simp only: z comp_def)
  also have "\<dots> = map (\<lambda>i. plus_months ?D (?p * int i)) (0 # map Suc [0..<n])"
    by simp
  also have "0 # map Suc [0..<n] = [0..<Suc n]"
    by (simp add: upt_conv_Cons map_Suc_upt del: upt_Suc)
  finally show ?case .
qed

lemma first_date_valid:
  assumes v: "valid_date (Date y m dd)" and dd: "dd \<le> 28"
    and k: "Number_js binary64 (moratorium data) = Num (real k)"
    and ok: "first_date binary64 data (Date y m dd) \<noteq> InvalidDate"
  shows "first_date binary64 data (Date y m dd) = plus_months (Date y m dd) (int k)"
    and "valid_date (plus_months (Date y m dd) (int k))"
proof -
  let ?D = "Date y m dd"
  have m: "0 \<le> m" "m < 12" and d1: "1 \<le> dd"
    using v by simp_all
  note y = valid_year[OF v]
  have fd: "first_date binary64 data ?D
      = setMonth ?D (js_add binary64 (getMonth ?D) (Num (of_int (int k))))"
    by (simp add: first_date_def k)
  have small: "m + int k < 2 ^ 53"
  proof (rule ccontr)
    assume "\<not> m + int k < 2 ^ 53"
    then have big: "2 ^ 53 \<le> m + int k"
      by simp
    then have "(of_int (2 ^ 53) :: real) \<le> of_int (m + int k)"
      by (simp only: of_int_le_iff)
    then have x: "(2 :: real) ^ 53 \<le> of_int m + real k"
      by simp
    then have xp: "(2 :: real) powr of_int (int 53) \<le> of_int m + real k"
      by (simp only: two_powr_nat)
    have x0: "0 < of_int m + real k"
      using x by (rule less_le_trans[rotated]) simp
    have s: "js_add binary64 (getMonth ?D) (Num (of_int (int k)))
        = binary64_pos (of_int m + real k)"
      using x0 by (simp add: binary64_def)
    have "binary64_pos (of_int m + real k) = PInf
        \<or> (\<exists>r. binary64_pos (of_int m + real k) = Num r \<and> 2 powr of_int (int 53) \<le> r)"
      using _ xp by (rule binary64_pos_at_least) simp
    then show False
    proof
      assume "binary64_pos (of_int m + real k) = PInf"
      then have "first_date binary64 data ?D = InvalidDate"
        by (simp only: fd s setMonth.simps)
      with ok show False ..
    next
      assume "\<exists>r. binary64_pos (of_int m + real k) = Num r \<and> 2 powr of_int (int 53) \<le> r"
      then obtain r where r: "binary64_pos (of_int m + real k) = Num r"
        and r53: "2 powr of_int (int 53) \<le> r"
        by blast
      have "of_int (2 ^ 53) \<le> r"
        using r53 by (simp only: two_powr_nat) simp
      then have "2 ^ 53 \<le> \<lfloor>r\<rfloor>"
        by (simp only: le_floor_iff)
      moreover have "0 \<le> r"
        using \<open>of_int (2 ^ 53) \<le> r\<close> by (rule order_trans[rotated]) simp
      ultimately have T: "2 ^ 53 \<le> ToInteger r"
        by (simp add: ToInteger_def)
      have "(2 ^ 53 :: int) div 12 \<le> ToInteger r div 12"
        using T by (rule zdiv_mono1) simp
      then have "750599937895082 \<le> ToInteger r div 12"
        by simp
      then have far: "300000 < \<bar>y + ToInteger r div 12\<bar>"
        using y by linarith
      have "dd \<le> 31"
        using dd by simp
      with d1 have "MakeDay y (ToInteger r) dd = InvalidDate"
        using far by (rule MakeDay_far)
      then have "first_date binary64 data ?D = InvalidDate"
        by (simp only: fd s r setMonth.simps)
      with ok show False ..
    qed
  qed
  then have "\<bar>m + int k\<bar> < 2 ^ 53"
    using m by simp
  then have e: "first_date binary64 data ?D = MakeDay y (m + int k) dd"
    unfolding fd by (rule setMonth_whole)
  with ok have ok': "MakeDay y (m + int k) dd \<noteq> InvalidDate"
    by simp
  show "first_date binary64 data ?D = plus_months ?D (int k)"
    using MakeDay_plus_months(1)[OF d1 dd ok'] by (simp only: e)
  show "valid_date (plus_months ?D (int k))"
    by (rule MakeDay_plus_months(2)[OF d1 dd ok'])
qed

lemma schedule_dates_valid:
  assumes f: "f = ''monthly'' \<or> f = ''quarterly'' \<or> f = ''semi-annually'' \<or> f = ''annually''"
    and v: "valid_date (Date y m dd)" and dd: "dd \<le> 28"
    and k: "Number_js binary64 (moratorium data) = Num (real k)"
    and ok: "InvalidDate \<notin> set (date_seq binary64 n f (first_date binary64 data (Date y m dd)))"
  shows "date_seq binary64 n f (first_date binary64 data (Date y m dd))
           = map (\<lambda>i. plus_months (Date y m dd) (int k + period_months f * int i)) [0..<n]"
proof (cases n)
  case 0
  then show ?thesis by simp
next
  case (Suc n')
  let ?D = "Date y m dd"
  have "first_date binary64 data ?D \<in> set (date_seq binary64 n f (first_date binary64 data ?D))"
    by (simp add: Suc)
  with ok have ok1: "first_date binary64 data ?D \<noteq> InvalidDate"
    by metis
  note F = first_date_valid[OF v dd k ok1]
  let ?y = "y + (m + int k) div 12" and ?m = "(m + int k) mod 12"
  have e: "plus_months ?D (int k) = Date ?y ?m dd"
    by (rule plus_months_le_28[OF dd])
  have v1: "valid_date (Date ?y ?m dd)"
    using F(2)[unfolded e] .
  have ok2: "InvalidDate \<notin> set (date_seq binary64 n f (Date ?y ?m dd))"
    using ok[unfolded F(1) e] .
  have sh: "plus_months (Date ?y ?m dd) j = plus_months ?D (int k + j)" for j
    using plus_months_add[OF dd, of y m "int k" j] by (simp only: e)
  show ?thesis
    unfolding F(1) e date_seq_valid[OF f v1 dd ok2] sh by (rule refl)
qed

lemma numeric_fields_rows:
  "map numeric_fields (rows rnd n r e f b d) = map numeric_fields (rows rnd n r e f b d')"
  by (induction n arbitrary: b d d') (simp_all add: numeric_fields_def)

lemma map_plus_months_shift:
  assumes "dd \<le> 28"
  shows "map (\<lambda>x. plus_months x (k2 - k1))
           (map (\<lambda>i. plus_months (Date y m dd) (k1 + p * int i)) [0..<n])
         = map (\<lambda>i. plus_months (Date y m dd) (k2 + p * int i)) [0..<n]"
proof -
  have "plus_months (plus_months (Date y m dd) (k1 + j)) (k2 - k1)
      = plus_months (Date y m dd) (k2 + j)" for j
    using plus_months_add[OF assms, of y m "k1 + j" "k2 - k1"] by (simp only: algebra_simps) simp
  then show ?thesis
    by (simp only: map_map comp_def)
qed

text \<open>
  C6 (amended). Specified: two validated inputs that differ only in the moratorium give
  schedules that agree on every numeric field of every period and differ only in the
  dates, which are shifted by the moratorium difference; with a moratorium of 3 and a
  start on 2024-01-01 the first date is 2024-04-01. The numeric part holds as stated.
  The dates of the two schedules are a month shift apart only while no date runs over
  the end of a month. What holds, in the binary64 arithmetic of the program and with
  calendar-safe month addition as the measure: for two states with the same start date
  whose forms validate and differ only in the moratorium, with a frequency of the four,
  when the product of tenure and periods per year that the program computes is a finite
  number of at most \<open>2^32 - 1\<close>, both runs return schedules of the same length, that
  product rounded up, with the same payment, interest, principal component and balance
  in every row. When moreover both moratoria are whole numbers, the start date is a
  date whose day of the month is at most 28, and no date of either schedule is the
  invalid date (that is, all stay within the range of \<open>Date\<close>), then the date of row
  \<open>i\<close> of each schedule is the start date plus its moratorium plus \<open>i\<close> times the period
  of the frequency, in months, and every date of the second schedule is the date of
  the first plus the moratorium difference.
\<close>

theorem C6_moratorium_shifts_dates_only:
  assumes "date st1 = Some d"
    and "date st2 = Some d"
    and "formData st2 = (formData st1)\<lparr>moratorium := mor2\<rparr>"
    and "fst (validateForm binary64 (formData st1) st1)"
    and "fst (validateForm binary64 (formData st2) st2)"
    and "(frequency (formData st1), ppy) \<in>
           {(''monthly'', 12), (''quarterly'', 4), (''semi-annually'', 2), (''annually'', 1 :: real)}"
    and "Number_js binary64 (tenure (formData st1)) = Num t"
    and "binary64 (t * ppy) = Num n"
    and "n \<le> 4294967295"
  shows "\<exists>s1 s2. calculateSchedule binary64 st1 = Some s1
           \<and> calculateSchedule binary64 st2 = Some s2
           \<and> int (length (schedule s1)) = \<lceil>n\<rceil>
           \<and> map numeric_fields (schedule s2) = map numeric_fields (schedule s1)
           \<and> (\<forall>k1 k2. Number_js binary64 (moratorium (formData st1)) = Num (real k1)
                    \<and> Number_js binary64 mor2 = Num (real k2)
                    \<and> valid_date d \<and> day_of_month d \<le> 28
                    \<and> InvalidDate \<notin> set (map row_date (schedule s1))
                    \<and> InvalidDate \<notin> set (map row_date (schedule s2)) \<longrightarrow>
                  map row_date (schedule s1)
                    = map (\<lambda>i. plus_months d
                                 (int k1 + period_months (frequency (formData st1)) * int i))
                        [0..<length (schedule s1)]
                  \<and> map row_date (schedule s2)
                    = map (\<lambda>i. plus_months d
                                 (int k2 + period_months (frequency (formData st1)) * int i))
                        [0..<length (schedule s2)]
                  \<and> map row_date (schedule s2)
                    = map (\<lambda>x. plus_months x (int k2 - int k1)) (map row_date (schedule s1)))"
proof -
  let ?fd1 = "formData st1" and ?fd2 = "formData st2"
  let ?f = "frequency ?fd1"
  have v1: "keys_length (newErrors binary64 ?fd1) = 0"
    and v2: "keys_length (newErrors binary64 ?fd2) = 0"
    using assms(4,5) by (simp_all add: validated_keys)
  have f1: "periodsPerYear_lookup ?f = Some (Num ppy)" and ppy: "0 < ppy"
    using lookup_known[OF assms(6)] by simp_all
  from assms(6) have "?f = ''monthly'' \<and> ppy = 12 \<or> ?f = ''quarterly'' \<and> ppy = 4
    \<or> ?f = ''semi-annually'' \<and> ppy = 2 \<or> ?f = ''annually'' \<and> ppy = 1"
    by simp
  then have four: "?f = ''monthly'' \<or> ?f = ''quarterly'' \<or> ?f = ''semi-annually''
      \<or> ?f = ''annually''"
    by (elim disjE conjE) (simp_all only: simp_thms)
  have fr: "frequency ?fd2 = ?f"
    by (simp add: assms(3))
  have f2: "periodsPerYear_lookup (frequency ?fd2) = Some (Num ppy)"
    using f1 by (simp only: fr)
  have n1: "totalPeriods_of binary64 ?fd1 (Num ppy) = Num n"
    by (simp add: totalPeriods_of_def assms(7,8))
  have n2: "totalPeriods_of binary64 ?fd2 (Num ppy) = Num n"
    by (simp add: totalPeriods_of_def assms(3,7,8))
  have pr: "periodicRate_of binary64 ?fd2 (Num ppy) = periodicRate_of binary64 ?fd1 (Num ppy)"
    by (simp add: periodicRate_of_def assms(3))
  have em: "emi_of binary64 ?fd2 (Num ppy) = emi_of binary64 ?fd1 (Num ppy)"
    by (simp add: emi_of_def periodicRate_of_def totalPeriods_of_def assms(3))
  have pp: "Number_js binary64 (principal ?fd2) = Number_js binary64 (principal ?fd1)"
    by (simp add: assms(3))
  have mo: "moratorium ?fd2 = mor2"
    by (simp add: assms(3))
  have "0 \<le> t * ppy"
    using validated_tenure[OF v1 assms(7)] ppy by simp
  then have pos: "0 \<le> n"
    using assms(8) by (rule binary64_nonneg)
  define N where "N = nat \<lceil>n\<rceil>"
  let ?R = "\<lambda>x. rows binary64 N (periodicRate_of binary64 ?fd1 (Num ppy))
              (emi_of binary64 ?fd1 (Num ppy)) ?f (Number_js binary64 (principal ?fd1)) x"
  let ?s1 = "st1\<lparr>schedule := ?R (first_date binary64 ?fd1 d), loading := False,
              errors := newErrors binary64 ?fd1\<rparr>"
  let ?s2 = "st2\<lparr>schedule := ?R (first_date binary64 ?fd2 d), loading := False,
              errors := newErrors binary64 ?fd2\<rparr>"
  have c1: "calculateSchedule binary64 st1 = Some ?s1"
    using calculateSchedule_rows[OF v1 assms(1) f1 n1] by (simp only: N_def)
  have c2: "calculateSchedule binary64 st2 = Some ?s2"
    using calculateSchedule_rows[OF v2 assms(2) f2 n2] by (simp only: N_def pr em pp fr)
  have sc1: "schedule ?s1 = ?R (first_date binary64 ?fd1 d)"
    and sc2: "schedule ?s2 = ?R (first_date binary64 ?fd2 d)"
    by simp_all
  have l1: "length (schedule ?s1) = N" and l2: "length (schedule ?s2) = N"
    unfolding sc1 sc2 by (simp_all only: length_rows)
  have "int N = \<lceil>n\<rceil>"
    using pos by (simp add: N_def)
  then have ln: "int (length (schedule ?s1)) = \<lceil>n\<rceil>"
    by (simp only: l1)
  have nf: "map numeric_fields (schedule ?s2) = map numeric_fields (schedule ?s1)"
    unfolding sc1 sc2 by (rule numeric_fields_rows)
  have rd1: "map row_date (schedule ?s1) = date_seq binary64 N ?f (first_date binary64 ?fd1 d)"
    unfolding sc1 by (rule row_date_rows)
  have rd2: "map row_date (schedule ?s2) = date_seq binary64 N ?f (first_date binary64 ?fd2 d)"
    unfolding sc2 by (rule row_date_rows)
  have dt: "map row_date (schedule ?s1)
              = map (\<lambda>i. plus_months d (int k1 + period_months ?f * int i))
                  [0..<length (schedule ?s1)]
            \<and> map row_date (schedule ?s2)
              = map (\<lambda>i. plus_months d (int k2 + period_months ?f * int i))
                  [0..<length (schedule ?s2)]
            \<and> map row_date (schedule ?s2)
              = map (\<lambda>x. plus_months x (int k2 - int k1)) (map row_date (schedule ?s1))"
    if H: "Number_js binary64 (moratorium ?fd1) = Num (real k1)
         \<and> Number_js binary64 mor2 = Num (real k2)
         \<and> valid_date d \<and> day_of_month d \<le> 28
         \<and> InvalidDate \<notin> set (map row_date (schedule ?s1))
         \<and> InvalidDate \<notin> set (map row_date (schedule ?s2))"
    for k1 k2
  proof -
    note k1 = H[THEN conjunct1]
    have k2: "Number_js binary64 (moratorium ?fd2) = Num (real k2)"
      using H[THEN conjunct2, THEN conjunct1] by (simp only: mo)
    note vd = H[THEN conjunct2, THEN conjunct2, THEN conjunct1]
    note d28 = H[THEN conjunct2, THEN conjunct2, THEN conjunct2, THEN conjunct1]
    note i1 = H[THEN conjunct2, THEN conjunct2, THEN conjunct2, THEN conjunct2, THEN conjunct1]
    note i2 = H[THEN conjunct2, THEN conjunct2, THEN conjunct2, THEN conjunct2, THEN conjunct2]
    from vd obtain y m dd where d: "d = Date y m dd"
      by (cases d) simp_all
    have v: "valid_date (Date y m dd)" and dd: "dd \<le> 28"
      using vd d28 by (simp_all add: d)
    have o1: "InvalidDate \<notin> set (date_seq binary64 N ?f (first_date binary64 ?fd1 (Date y m dd)))"
      using i1[unfolded rd1, unfolded d] .
    have o2: "InvalidDate \<notin> set (date_seq binary64 N ?f (first_date binary64 ?fd2 (Date y m dd)))"
      using i2[unfolded rd2, unfolded d] .
    have a1: "map row_date (schedule ?s1)
        = map (\<lambda>i. plus_months d (int k1 + period_months ?f * int i)) [0..<length (schedule ?s1)]"
      unfolding l1 unfolding rd1 unfolding d by (rule schedule_dates_valid[OF four v dd k1 o1])
    have a2: "map row_date (schedule ?s2)
        = map (\<lambda>i. plus_months d (int k2 + period_months ?f * int i)) [0..<length (schedule ?s2)]"
      unfolding l2 unfolding rd2 unfolding d by (rule schedule_dates_valid[OF four v dd k2 o2])
    have a3: "map row_date (schedule ?s2)
        = map (\<lambda>x. plus_months x (int k2 - int k1)) (map row_date (schedule ?s1))"
      unfolding a1 a2 unfolding l1 l2 unfolding d by (rule map_plus_months_shift[OF dd, symmetric])
    show ?thesis
      using a1 a2 a3 by (intro conjI)
  qed
  have dt': "\<forall>k1 k2. Number_js binary64 (moratorium ?fd1) = Num (real k1)
                    \<and> Number_js binary64 mor2 = Num (real k2)
                    \<and> valid_date d \<and> day_of_month d \<le> 28
                    \<and> InvalidDate \<notin> set (map row_date (schedule ?s1))
                    \<and> InvalidDate \<notin> set (map row_date (schedule ?s2)) \<longrightarrow>
                  map row_date (schedule ?s1)
                    = map (\<lambda>i. plus_months d (int k1 + period_months ?f * int i))
                        [0..<length (schedule ?s1)]
                  \<and> map row_date (schedule ?s2)
                    = map (\<lambda>i. plus_months d (int k2 + period_months ?f * int i))
                        [0..<length (schedule ?s2)]
                  \<and> map row_date (schedule ?s2)
                    = map (\<lambda>x. plus_months x (int k2 - int k1)) (map row_date (schedule ?s1))"
    by (intro allI impI) (rule dt)
  show ?thesis
    by (rule exI[of _ ?s1], rule exI[of _ ?s2]) (intro conjI c1 c2 ln nf dt')
qed

text \<open>
  A start on 2024-01-01, monthly for one year, with moratorium 0 and with moratorium 3:
  the first date of the second schedule is 2024-04-01 (month 3), and its dates are those
  of the first schedule plus three months.
\<close>

theorem C6_moratorium_shifts_dates_only_witness:
  "valid_date (Date 2024 0 1) \<and> day_of_month (Date 2024 0 1) \<le> 28
   \<and> binary64 (1 * 12) = Num 12
   \<and> plus_months (Date 2024 0 1) 3 = Date 2024 3 1
   \<and> (\<exists>s1 s2.
         calculateSchedule binary64
           (filled_in (Date 2024 0 1) ''1000'' ''1'' ''12'' ''monthly'' ''0'') = Some s1
       \<and> calculateSchedule binary64
           (filled_in (Date 2024 0 1) ''1000'' ''1'' ''12'' ''monthly'' ''3'') = Some s2
       \<and> length (schedule s1) = 12
       \<and> map numeric_fields (schedule s2) = map numeric_fields (schedule s1)
       \<and> InvalidDate \<notin> set (map row_date (schedule s1))
       \<and> InvalidDate \<notin> set (map row_date (schedule s2))
       \<and> row_date (hd (schedule s1)) = Date 2024 0 1
       \<and> row_date (hd (schedule s2)) = Date 2024 3 1
       \<and> map row_date (schedule s2) = map (\<lambda>x. plus_months x 3) (map row_date (schedule s1)))"
proof -
  let ?st1 = "filled_in (Date 2024 0 1) ''1000'' ''1'' ''12'' ''monthly'' ''0''"
  let ?st2 = "filled_in (Date 2024 0 1) ''1000'' ''1'' ''12'' ''monthly'' ''3''"
  let ?fd1 = "\<lparr>principal = ''1000'', tenure = ''1'', rate = ''12'',
      frequency = ''monthly'', moratorium = ''0''\<rparr>"
  let ?fd2 = "\<lparr>principal = ''1000'', tenure = ''1'', rate = ''12'',
      frequency = ''monthly'', moratorium = ''3''\<rparr>"
  let ?l1 = "[Date 2024 0 1, Date 2024 1 1, Date 2024 2 1, Date 2024 3 1, Date 2024 4 1,
      Date 2024 5 1, Date 2024 6 1, Date 2024 7 1, Date 2024 8 1, Date 2024 9 1,
      Date 2024 10 1, Date 2024 11 1]"
  let ?l2 = "[Date 2024 3 1, Date 2024 4 1, Date 2024 5 1, Date 2024 6 1, Date 2024 7 1,
      Date 2024 8 1, Date 2024 9 1, Date 2024 10 1, Date 2024 11 1, Date 2025 0 1,
      Date 2025 1 1, Date 2025 2 1]"
  have d1: "date ?st1 = Some (Date 2024 0 1)" and d2: "date ?st2 = Some (Date 2024 0 1)"
    by (simp_all add: filled_in_def)
  have fd: "formData ?st2 = (formData ?st1)\<lparr>moratorium := ''3''\<rparr>"
    by (simp add: filled_in_def)
  have k1: "keys_length (newErrors binary64 ?fd1) = 0"
    by (simp add: keys_length_def newErrors_def Number_js_examples js_le_def)
  have k2: "keys_length (newErrors binary64 ?fd2) = 0"
    by (simp add: keys_length_def newErrors_def Number_js_examples Number_js_3 js_le_def)
  have v1: "fst (validateForm binary64 (formData ?st1) ?st1)"
    using k1 by (simp add: validateForm_def filled_in_def)
  have v2: "fst (validateForm binary64 (formData ?st2) ?st2)"
    using k2 by (simp add: validateForm_def filled_in_def)
  have f: "(frequency (formData ?st1), 12) \<in>
           {(''monthly'', 12), (''quarterly'', 4), (''semi-annually'', 2), (''annually'', 1 :: real)}"
    by (simp add: filled_in_def)
  have t: "Number_js binary64 (tenure (formData ?st1)) = Num 1"
    by (simp add: filled_in_def Number_js_examples)
  have n: "binary64 (1 * 12) = Num 12"
    by (simp add: binary64_values)
  have b: "(12 :: real) \<le> 4294967295"
    by simp
  have k: "Number_js binary64 (moratorium (formData ?st1)) = Num (real 0)"
    "Number_js binary64 ''3'' = Num (real 3)"
    by (simp_all add: filled_in_def Number_js_examples Number_js_3)
  have vd: "valid_date (Date 2024 0 1)"
    by (simp add: calendar_defs)
  have d28: "day_of_month (Date 2024 0 1) \<le> 28"
    by simp
  have p3: "plus_months (Date 2024 0 1) 3 = Date 2024 3 1"
    by (simp add: DaysInMonth_def)
  have n12: "totalPeriods_of binary64 ?fd1 (Num 12) = Num 12"
    "totalPeriods_of binary64 ?fd2 (Num 12) = Num 12"
    by (simp_all add: totalPeriods_of_def Number_js_examples binary64_values)
  have s1: "first_date binary64 ?fd1 (Date 2024 0 1) = Date 2024 0 1"
    by (simp add: date_defs Number_js_examples binary64_values)
  have s2: "first_date binary64 ?fd2 (Date 2024 0 1) = Date 2024 3 1"
    by (simp add: eval_nat_numeral date_defs Number_js_3 binary64_values)
  have q1: "date_seq binary64 12 ''monthly'' (Date 2024 0 1) = ?l1"
    by (simp add: eval_nat_numeral date_defs binary64_values)
  have q2: "date_seq binary64 12 ''monthly'' (Date 2024 3 1) = ?l2"
    by (simp add: eval_nat_numeral date_defs binary64_values)
  have r1: "map_option (\<lambda>s. map row_date (schedule s)) (calculateSchedule binary64 ?st1) = Some ?l1"
    using schedule_filled_in[OF k1 lookup_monthly n12(1), where g = "map row_date"
        and d = "Date 2024 0 1"]
    by (simp only: row_date_rows s1) (simp add: q1)
  have r2: "map_option (\<lambda>s. map row_date (schedule s)) (calculateSchedule binary64 ?st2) = Some ?l2"
    using schedule_filled_in[OF k2 lookup_monthly n12(2), where g = "map row_date"
        and d = "Date 2024 0 1"]
    by (simp only: row_date_rows s2) (simp add: q2)
  from C6_moratorium_shifts_dates_only[OF d1 d2 fd v1 v2 f t n b]
  obtain s1 s2 where H: "calculateSchedule binary64 ?st1 = Some s1
           \<and> calculateSchedule binary64 ?st2 = Some s2
           \<and> int (length (schedule s1)) = \<lceil>12 :: real\<rceil>
           \<and> map numeric_fields (schedule s2) = map numeric_fields (schedule s1)
           \<and> (\<forall>k1 k2. Number_js binary64 (moratorium (formData ?st1)) = Num (real k1)
                    \<and> Number_js binary64 ''3'' = Num (real k2)
                    \<and> valid_date (Date 2024 0 1) \<and> day_of_month (Date 2024 0 1) \<le> 28
                    \<and> InvalidDate \<notin> set (map row_date (schedule s1))
                    \<and> InvalidDate \<notin> set (map row_date (schedule s2)) \<longrightarrow>
                  map row_date (schedule s1)
                    = map (\<lambda>i. plus_months (Date 2024 0 1)
                                 (int k1 + period_months (frequency (formData ?st1)) * int i))
                        [0..<length (schedule s1)]
                  \<and> map row_date (schedule s2)
                    = map (\<lambda>i. plus_months (Date 2024 0 1)
                                 (int k2 + period_months (frequency (formData ?st1)) * int i))
                        [0..<length (schedule s2)]
                  \<and> map row_date (schedule s2)
                    = map (\<lambda>x. plus_months x (int k2 - int k1)) (map row_date (schedule s1)))"
    by (elim exE) (rule that)
  note c1 = H[THEN conjunct1]
  note c2 = H[THEN conjunct2, THEN conjunct1]
  note ln = H[THEN conjunct2, THEN conjunct2, THEN conjunct1]
  note nf = H[THEN conjunct2, THEN conjunct2, THEN conjunct2, THEN conjunct1]
  note Q = H[THEN conjunct2, THEN conjunct2, THEN conjunct2, THEN conjunct2, THEN spec,
      THEN spec, THEN mp]
  have m1: "map row_date (schedule s1) = ?l1"
    using r1 by (simp only: c1 option.map option.inject)
  have m2: "map row_date (schedule s2) = ?l2"
    using r2 by (simp only: c2 option.map option.inject)
  have i1: "InvalidDate \<notin> set (map row_date (schedule s1))"
    by (simp only: m1) simp
  have i2: "InvalidDate \<notin> set (map row_date (schedule s2))"
    by (simp only: m2) simp
  have l: "length (schedule s1) = 12"
    using ln by simp
  have ne1: "schedule s1 \<noteq> []" and ne2: "schedule s2 \<noteq> []"
    using m1 m2 by auto
  have h1: "row_date (hd (schedule s1)) = Date 2024 0 1"
    using arg_cong[OF m1, of hd] ne1 by (simp add: hd_map)
  have h2: "row_date (hd (schedule s2)) = Date 2024 3 1"
    using arg_cong[OF m2, of hd] ne2 by (simp add: hd_map)
  have i: "int 3 - int 0 = 3"
    by simp
  have sh: "map row_date (schedule s2) = map (\<lambda>x. plus_months x 3) (map row_date (schedule s1))"
    using Q[of 0 3, OF conjI[OF k(1) conjI[OF k(2) conjI[OF vd conjI[OF d28 conjI[OF i1 i2]]]]],
        THEN conjunct2, THEN conjunct2]
    by (simp only: i)
  have "\<exists>s1 s2. calculateSchedule binary64 ?st1 = Some s1
       \<and> calculateSchedule binary64 ?st2 = Some s2
       \<and> length (schedule s1) = 12
       \<and> map numeric_fields (schedule s2) = map numeric_fields (schedule s1)
       \<and> InvalidDate \<notin> set (map row_date (schedule s1))
       \<and> InvalidDate \<notin> set (map row_date (schedule s2))
       \<and> row_date (hd (schedule s1)) = Date 2024 0 1
       \<and> row_date (hd (schedule s2)) = Date 2024 3 1
       \<and> map row_date (schedule s2) = map (\<lambda>x. plus_months x 3) (map row_date (schedule s1))"
    using c1 c2 l nf i1 i2 h1 h2 sh
    by (intro exI[of _ s1] exI[of _ s2] conjI)
  with vd d28 n p3 show ?thesis
    by (intro conjI)
qed

text \<open>
  A start on 2024-01-31, monthly, with moratorium 0 and with moratorium 2. The first
  schedule goes 31 January, 2 March; the second goes 31 March, 1 May. Two months on from
  2 March is 2 May, not 1 May.
\<close>

theorem C6_month_end_dates_are_not_a_shift:
  "map_option (\<lambda>s. take 2 (map row_date (schedule s)))
     (calculateSchedule binary64
        (filled_in (Date 2024 0 31) ''1000'' ''1'' ''12'' ''monthly'' ''0''))
     = Some [Date 2024 0 31, Date 2024 2 2]
   \<and> map_option (\<lambda>s. take 2 (map row_date (schedule s)))
        (calculateSchedule binary64
           (filled_in (Date 2024 0 31) ''1000'' ''1'' ''12'' ''monthly'' ''2''))
     = Some [Date 2024 2 31, Date 2024 4 1]
   \<and> map (\<lambda>d. plus_months d 2) [Date 2024 0 31, Date 2024 2 2]
     = [Date 2024 2 31, Date 2024 4 2]"
proof -
  let ?fd0 = "\<lparr>principal = ''1000'', tenure = ''1'', rate = ''12'',
      frequency = ''monthly'', moratorium = ''0''\<rparr>"
  let ?fd2 = "\<lparr>principal = ''1000'', tenure = ''1'', rate = ''12'',
      frequency = ''monthly'', moratorium = ''2''\<rparr>"
  have v0: "keys_length (newErrors binary64 ?fd0) = 0"
    by (simp add: keys_length_def newErrors_def Number_js_examples js_le_def)
  have v2: "keys_length (newErrors binary64 ?fd2) = 0"
    by (simp add: keys_length_def newErrors_def Number_js_examples Number_js_2 js_le_def)
  have n0: "totalPeriods_of binary64 ?fd0 (Num 12) = Num 12"
    by (simp add: totalPeriods_of_def Number_js_examples binary64_values)
  have n2: "totalPeriods_of binary64 ?fd2 (Num 12) = Num 12"
    by (simp add: totalPeriods_of_def Number_js_examples binary64_values)
  have s0: "first_date binary64 ?fd0 (Date 2024 0 31) = Date 2024 0 31"
    by (simp add: date_defs Number_js_examples binary64_values)
  have s2: "first_date binary64 ?fd2 (Date 2024 0 31) = Date 2024 2 31"
    by (simp add: eval_nat_numeral date_defs Number_js_2 binary64_values)
  have t0: "take 2 (date_seq binary64 12 ''monthly'' (Date 2024 0 31))
      = [Date 2024 0 31, Date 2024 2 2]"
    by (simp add: eval_nat_numeral date_defs binary64_values)
  have t2: "take 2 (date_seq binary64 12 ''monthly'' (Date 2024 2 31))
      = [Date 2024 2 31, Date 2024 4 1]"
    by (simp add: eval_nat_numeral date_defs binary64_values)
  have c0: "map_option (\<lambda>s. take 2 (map row_date (schedule s)))
     (calculateSchedule binary64
        (filled_in (Date 2024 0 31) ''1000'' ''1'' ''12'' ''monthly'' ''0''))
     = Some [Date 2024 0 31, Date 2024 2 2]"
    using schedule_filled_in[OF v0 lookup_monthly n0, where g = "\<lambda>rs. take 2 (map row_date rs)"
        and d = "Date 2024 0 31"]
    by (simp add: row_date_rows s0 t0)
  have c2: "map_option (\<lambda>s. take 2 (map row_date (schedule s)))
        (calculateSchedule binary64
           (filled_in (Date 2024 0 31) ''1000'' ''1'' ''12'' ''monthly'' ''2''))
     = Some [Date 2024 2 31, Date 2024 4 1]"
    using schedule_filled_in[OF v2 lookup_monthly n2, where g = "\<lambda>rs. take 2 (map row_date rs)"
        and d = "Date 2024 0 31"]
    by (simp add: row_date_rows s2 t2)
  have a: "map (\<lambda>d. plus_months d 2) [Date 2024 0 31, Date 2024 2 2]
      = [Date 2024 2 31, Date 2024 4 2]"
    by (simp add: DaysInMonth_def leap_year_def)
  show ?thesis
    using c0 c2 a by (intro conjI)
qed

text \<open>
  A moratorium of a thousand million months leaves the range of \<open>Date\<close>: the first date
  is the invalid date.
\<close>

lemma far_moratorium_is_invalid:
  "first_date binary64
     \<lparr>principal = ''1000'', tenure = ''1'', rate = ''12'', frequency = ''monthly'',
      moratorium = ''1e9''\<rparr> (Date 2024 0 1) = InvalidDate"
proof -
  have n: "Number_js binary64 ''1e9'' = Num 1000000000"
    by (simp add: number_defs binary64_values)
  have "MakeDay 2024 1000000000 1 = InvalidDate"
    by (rule MakeDay_far) simp_all
  then show ?thesis
    by (simp add: first_date_def n binary64_values ToInteger_def)
qed

section \<open>Amortization\<close>


lemma js_max_Num: "js_max (Num 0) (Num x) = Num (max 0 x)"
  by (simp add: js_max_def max_def)

lemma next_balance_Num: "next_balance exact (Num r) (Num e) (Num b) = Num (b - (e - b * r))"
  by (simp add: next_balance_def js_sub_def)






lemma validated_principal:
  assumes "keys_length (newErrors exact data) = 0" and "Number_js exact (principal data) = Num P"
  shows "0 < P"
  using assms by (auto simp: keys_length_def newErrors_def js_le_def split: if_splits)

lemma emi_of_finite:
  assumes "Number_js exact (principal data) = Num P"
    and "Number_js exact (rate data) = Num R"
    and "Number_js exact (tenure data) = Num t"
    and "0 < R" and "0 < t" and "0 < ppy"
  shows "periodicRate_of exact data (Num ppy) = Num (R / 100 / ppy)"
    and "1 < (1 + R / 100 / ppy) powr (t * ppy)"
    and "emi_of exact data (Num ppy)
           = Num (P * (R / 100 / ppy) * (1 + R / 100 / ppy) powr (t * ppy)
                  / ((1 + R / 100 / ppy) powr (t * ppy) - 1))"
proof -
  let ?r = "R / 100 / ppy"
  have r: "0 < ?r"
    using assms(4,6) by simp
  show pr: "periodicRate_of exact data (Num ppy) = Num ?r"
    using assms(6) by (simp add: periodicRate_of_def assms(2))
  have T: "0 < t * ppy"
    using assms(5,6) by simp
  show q: "1 < (1 + ?r) powr (t * ppy)"
    using r T by (intro gr_one_powr) simp_all
  have tp: "totalPeriods_of exact data (Num ppy) = Num (t * ppy)"
    by (simp add: totalPeriods_of_def assms(3))
  have pw: "js_pow exact (Num (1 + ?r)) (Num (t * ppy)) = Num ((1 + ?r) powr (t * ppy))"
  proof -
    have "0 < 1 + ?r" using r by simp
    moreover have "t * ppy \<noteq> 0" using assms(5,6) by simp
    ultimately show ?thesis
      by (simp add: real_pow_def)
  qed
  have a1: "js_add exact (Num 1) (Num ?r) = Num (1 + ?r)"
    by simp
  have nz: "(1 + ?r) powr (t * ppy) - 1 \<noteq> 0"
    using q by simp
  show "emi_of exact data (Num ppy)
           = Num (P * ?r * (1 + ?r) powr (t * ppy) / ((1 + ?r) powr (t * ppy) - 1))"
    unfolding emi_of_def pr tp assms(1) a1 pw
    using nz by (simp add: js_sub_def)
qed








section \<open>The invariants away from the zero rate\<close>

text \<open>
  With a rate above 0 the two invariants that fail at the zero rate do hold, in exact
  arithmetic: the payment covers the interest of every period, so the balance never
  goes up, and the parts of every row add up to the payment.
\<close>

lemma non_increasing_tl: "non_increasing (x # xs) \<Longrightarrow> non_increasing xs"
  by (cases xs) simp_all

lemma js_le_Num: "js_le (Num a) (Num b) = (a \<le> b)"
  by (auto simp: js_le_def)

lemma non_increasing_rows:
  assumes "0 < r" and "b * r \<le> e"
  shows "non_increasing (Num (max 0 b) # map balance (rows exact n (Num r) (Num e) f (Num b) d))"
  using assms(2)
proof (induction n arbitrary: b d)
  case 0
  show ?case by simp
next
  case (Suc n)
  let ?b = "b - (e - b * r)"
  have le: "?b \<le> b"
    using Suc.prems by simp
  then have "?b * r \<le> b * r"
    using assms(1) by simp
  then have inv: "?b * r \<le> e"
    using Suc.prems by simp
  have "map balance (rows exact (Suc n) (Num r) (Num e) f (Num b) d)
      = Num (max 0 ?b) # map balance (rows exact n (Num r) (Num e) f (Num ?b) (next_date exact f d))"
    by (simp add: next_balance_Num js_max_Num)
  moreover have "js_le (Num (max 0 ?b)) (Num (max 0 b))"
    using le by (simp add: js_le_Num)
  ultimately show ?case
    using Suc.IH[OF inv, of "next_date exact f d"] by simp
qed

lemma non_negative_rows:
  "list_all (js_le (Num 0)) (map balance (rows exact n (Num r) (Num e) f (Num b) d))"
  by (induction n arbitrary: b d) (simp_all add: next_balance_Num js_max_Num js_le_Num)

lemma parts_add_up_rows:
  "list_all (\<lambda>row. js_eq (js_add exact (interest row) (row_principal row)) (payment row))
     (rows exact n (Num r) (Num e) f (Num b) d)"
  by (induction n arbitrary: b d) (simp_all add: next_balance_Num js_sub_def js_eq_def)

lemma invariants_at_positive_rate:
  assumes "date st = Some d"
    and "fst (validateForm exact (formData st) st)"
    and "(frequency (formData st), ppy) \<in>
           {(''monthly'', 12), (''quarterly'', 4), (''semi-annually'', 2), (''annually'', 1 :: real)}"
    and "Number_js exact (principal (formData st)) = Num P"
    and "Number_js exact (rate (formData st)) = Num R"
    and "Number_js exact (tenure (formData st)) = Num t"
    and "0 < R"
  shows "\<exists>st' e. calculateSchedule exact st = Some st'
           \<and> non_increasing (map balance (schedule st'))
           \<and> list_all (js_le (Num 0)) (map balance (schedule st'))
           \<and> list_all (\<lambda>row. js_eq (js_add exact (interest row) (row_principal row)) (payment row))
                 (schedule st')
           \<and> map payment (schedule st') = replicate (length (schedule st')) (Num e)"
proof -
  let ?fd = "formData st"
  let ?r = "R / 100 / ppy"
  let ?q = "(1 + ?r) powr (t * ppy)"
  let ?e = "P * ?r * ?q / (?q - 1)"
  have v: "keys_length (newErrors exact ?fd) = 0"
    using assms(2) by (simp add: validated_keys)
  have f: "periodsPerYear_lookup (frequency ?fd) = Some (Num ppy)" and ppy: "0 < ppy"
    using lookup_known[OF assms(3)] by simp_all
  have t: "0 < t"
    by (rule validated_tenure[OF v assms(6)])
  have P: "0 < P"
    by (rule validated_principal[OF v assms(4)])
  have r: "0 < ?r"
    using assms(7) ppy by simp
  note E = emi_of_finite[OF assms(4,5,6,7) t ppy]
  have q: "1 < ?q"
    by (rule E(2))
  have n: "totalPeriods_of exact ?fd (Num ppy) = Num (t * ppy)"
    by (simp add: totalPeriods_of_def assms(6))
  let ?n = "nat \<lceil>t * ppy\<rceil>"
  let ?rows = "rows exact ?n (Num ?r) (Num ?e) (frequency ?fd) (Num P) (first_date exact ?fd d)"
  let ?st' = "st\<lparr>schedule := ?rows, loading := False, errors := newErrors exact ?fd\<rparr>"
  have c: "calculateSchedule exact st = Some ?st'"
    using calculateSchedule_rows[OF v assms(1) f n] by (simp only: E(1) E(3) assms(4))
  have sc: "schedule ?st' = ?rows"
    by simp
  have "1 \<le> ?q / (?q - 1)"
    using q by (simp add: field_simps)
  moreover have "0 \<le> P * ?r"
    using P r by (intro mult_nonneg_nonneg less_imp_le)
  ultimately have "P * ?r * 1 \<le> P * ?r * (?q / (?q - 1))"
    by (rule mult_left_mono)
  then have cover: "P * ?r \<le> ?e"
    by simp
  have "non_increasing (Num (max 0 P) # map balance ?rows)"
    by (rule non_increasing_rows[OF r cover])
  then have 1: "non_increasing (map balance (schedule ?st'))"
    unfolding sc by (rule non_increasing_tl)
  have 2: "list_all (js_le (Num 0)) (map balance (schedule ?st'))"
    unfolding sc by (rule non_negative_rows)
  have 3: "list_all (\<lambda>row. js_eq (js_add exact (interest row) (row_principal row)) (payment row))
                 (schedule ?st')"
    unfolding sc by (rule parts_add_up_rows)
  have 4: "map payment (schedule ?st') = replicate (length (schedule ?st')) (Num ?e)"
    unfolding sc payment_rows length_rows by (rule refl)
  show ?thesis
    by (rule exI[of _ ?st'], rule exI[of _ ?e]) (intro conjI c 1 2 3 4)
qed

end
